theory Spec2Isabelle
  imports Main "HOL-Library.Word"
begin

text \<open>
  A shallow embedding of \<^verbatim>\<open>ModalFormPage.tsx\<close>: a page with one button that opens a
  modal dialog holding a validated form, with a hand-written focus trap. The definitions
  follow the component function by function. What the component only calls is modelled as
  far as the component depends on it: the rendering cycle of the UI library (state updates
  are applied by a re-render after the handler has returned, refs of elements that are not
  rendered are \<^verbatim>\<open>null\<close>, an effect with dependency \<^verbatim>\<open>isModalOpen\<close> runs after the commit
  in which that value changed, its cleanup first), the DOM operations \<^verbatim>\<open>focus\<close>,
  \<^verbatim>\<open>showModal\<close>, \<^verbatim>\<open>close\<close>, \<^verbatim>\<open>addEventListener\<close>, \<^verbatim>\<open>querySelectorAll\<close>, the
  form library, and the check the browser makes of the \<^verbatim>\<open>type="email"\<close> and
  \<^verbatim>\<open>type="url"\<close> inputs before it dispatches a submit event. An earlier variant of the component in the repository has the same modal
  and focus code and a form without validation; it is not modelled separately.
\<close>

section \<open>Strings and regular expressions of the host language\<close>

text \<open>
  A string of the source language is a sequence of 16-bit code units; \<open>length\<close> of the
  list is the \<^verbatim>\<open>.length\<close> of the string. \<open>js\<close> writes an ASCII literal.
\<close>

type_synonym code_unit = "16 word"
type_synonym jsstring = "code_unit list"

definition js :: "string \<Rightarrow> jsstring" where
  "js s = map (\<lambda>c. word_of_nat (of_char c)) s"

text \<open>
  The two \<^verbatim>\<open>RegExp\<close> literals of \<^verbatim>\<open>ModalFormPage.tsx\<close> use only
  character classes, concatenation, \<^verbatim>\<open>+\<close>, \<^verbatim>\<open>?\<close> and \<^verbatim>\<open>*\<close>, and both are
  anchored with \<^verbatim>\<open>^\<close> and \<^verbatim>\<open>$\<close> (no flags), so \<^verbatim>\<open>value.match(re)\<close> is non-null
  exactly when the whole string belongs to the language of the body. The body is kept as a
  syntax tree; \<open>matches\<close> decides membership by derivatives, and \<open>lang\<close> is the language the
  tree denotes.
\<close>

datatype rexp =
    Fail
  | Eps
  | Atom "code_unit \<Rightarrow> bool"
  | Alt rexp rexp
  | Seq rexp rexp
  | Star rexp

definition chr :: "char \<Rightarrow> rexp" where
  "chr c = Atom (\<lambda>x. x = word_of_nat (of_char c))"

definition lits :: "string \<Rightarrow> rexp" where
  "lits s = foldr (\<lambda>c r. Seq (chr c) r) s Eps"

definition Plus1 :: "rexp \<Rightarrow> rexp" where
  "Plus1 r = Seq r (Star r)"

definition Opt :: "rexp \<Rightarrow> rexp" where
  "Opt r = Alt r Eps"

fun nullable :: "rexp \<Rightarrow> bool" where
  "nullable Fail = False"
| "nullable Eps = True"
| "nullable (Atom p) = False"
| "nullable (Alt r s) = (nullable r \<or> nullable s)"
| "nullable (Seq r s) = (nullable r \<and> nullable s)"
| "nullable (Star r) = True"

fun deriv :: "code_unit \<Rightarrow> rexp \<Rightarrow> rexp" where
  "deriv c Fail = Fail"
| "deriv c Eps = Fail"
| "deriv c (Atom p) = (if p c then Eps else Fail)"
| "deriv c (Alt r s) = Alt (deriv c r) (deriv c s)"
| "deriv c (Seq r s) =
     (if nullable r then Alt (Seq (deriv c r) s) (deriv c s) else Seq (deriv c r) s)"
| "deriv c (Star r) = Seq (deriv c r) (Star r)"

fun matches :: "rexp \<Rightarrow> jsstring \<Rightarrow> bool" where
  "matches r [] = nullable r"
| "matches r (c # w) = matches (deriv c r) w"

inductive_set iter :: "jsstring set \<Rightarrow> jsstring set" for L :: "jsstring set" where
  iter_nil: "[] \<in> iter L"
| iter_app: "u \<in> L \<Longrightarrow> v \<in> iter L \<Longrightarrow> u @ v \<in> iter L"

fun lang :: "rexp \<Rightarrow> jsstring set" where
  "lang Fail = {}"
| "lang Eps = {[]}"
| "lang (Atom p) = {[c] | c. p c}"
| "lang (Alt r s) = lang r \<union> lang s"
| "lang (Seq r s) = {u @ v | u v. u \<in> lang r \<and> v \<in> lang s}"
| "lang (Star r) = iter (lang r)"

text \<open>
  The character classes. \<^verbatim>\<open>\s\<close> is the white space and line terminator set of the
  language standard; \<^verbatim>\<open>.\<close> (no \<^verbatim>\<open>s\<close> flag) is every code unit but the four line
  terminators.
\<close>

definition is_space :: "code_unit \<Rightarrow> bool" where
  "is_space c \<longleftrightarrow>
     c \<in> set [0x9, 0xA, 0xB, 0xC, 0xD, 0x20, 0xA0, 0x1680, 0x2028, 0x2029,
               0x202F, 0x205F, 0x3000, 0xFEFF]
     \<or> (0x2000 \<le> c \<and> c \<le> 0x200A)"

definition not_space_at :: "code_unit \<Rightarrow> bool" where
  \<comment> \<open>\<^verbatim>\<open>[^\s@]\<close>\<close>
  "not_space_at c \<longleftrightarrow> \<not> is_space c \<and> c \<noteq> 0x40"

definition any_char :: "code_unit \<Rightarrow> bool" where
  \<comment> \<open>\<^verbatim>\<open>.\<close>\<close>
  "any_char c \<longleftrightarrow> c \<notin> set [0xA, 0xD, 0x2028, 0x2029]"

definition handle_char :: "code_unit \<Rightarrow> bool" where
  \<comment> \<open>\<^verbatim>\<open>[a-zA-Z0-9-]\<close>\<close>
  "handle_char c \<longleftrightarrow>
     (0x61 \<le> c \<and> c \<le> 0x7A) \<or> (0x41 \<le> c \<and> c \<le> 0x5A) \<or> (0x30 \<le> c \<and> c \<le> 0x39) \<or> c = 0x2D"

definition email_pattern :: rexp where
  \<comment> \<open>\<^verbatim>\<open>/^[^\s@]+@[^\s@]+\.[^\s@]+$/\<close>\<close>
  "email_pattern =
     Seq (Plus1 (Atom not_space_at))
       (Seq (chr CHR ''@'')
         (Seq (Plus1 (Atom not_space_at))
           (Seq (chr CHR ''.'') (Plus1 (Atom not_space_at)))))"

definition github_pattern :: rexp where
  \<comment> \<open>\<^verbatim>\<open>/^https:\/\/(www\.)?github\.com\/[a-zA-Z0-9-]+\/?.*$/\<close>\<close>
  "github_pattern =
     Seq (lits ''https://'')
       (Seq (Opt (lits ''www.''))
         (Seq (lits ''github.com/'')
           (Seq (Plus1 (Atom handle_char))
             (Seq (Opt (chr CHR ''/'')) (Star (Atom any_char))))))"


section \<open>The form: fields, registered rules and their evaluation\<close>

datatype field = Name | Email | Experience | Github

record FormData =
  name :: jsstring
  email :: jsstring
  experience :: jsstring
  github :: jsstring

definition defaultValues :: FormData where
  "defaultValues = \<lparr>name = [], email = [], experience = [], github = []\<rparr>"

fun getValue :: "FormData \<Rightarrow> field \<Rightarrow> jsstring" where
  "getValue d Name = name d"
| "getValue d Email = email d"
| "getValue d Experience = experience d"
| "getValue d Github = github d"

fun setValue :: "field \<Rightarrow> jsstring \<Rightarrow> FormData \<Rightarrow> FormData" where
  "setValue Name v d = d\<lparr>name := v\<rparr>"
| "setValue Email v d = d\<lparr>email := v\<rparr>"
| "setValue Experience v d = d\<lparr>experience := v\<rparr>"
| "setValue Github v d = d\<lparr>github := v\<rparr>"

text \<open>
  The second argument of each \<^verbatim>\<open>register(...)\<close> call: an optional \<^verbatim>\<open>required\<close>
  message, an optional \<^verbatim>\<open>minLength\<close> with its message, an optional \<^verbatim>\<open>pattern\<close> with
  its message. The messages are the Korean strings of the source, written as code units.
\<close>

record RegisterOptions =
  required :: "jsstring option"
  minLength :: "(nat \<times> jsstring) option"
  pattern :: "(rexp \<times> jsstring) option"

record FieldError =
  kind :: string
  message :: jsstring

definition msg_name_required :: jsstring where
  "msg_name_required =
     [0xC774, 0xB984, 0xC744, 0x20, 0xC785, 0xB825, 0xD574, 0xC8FC, 0xC138, 0xC694]"

definition msg_name_minLength :: jsstring where
  "msg_name_minLength =
     [0xCD5C, 0xC18C, 0x20, 0x32, 0xAE00, 0xC790, 0x20, 0xC774, 0xC0C1, 0x20,
      0xC785, 0xB825, 0xD574, 0xC8FC, 0xC138, 0xC694]"

definition msg_email_required :: jsstring where
  "msg_email_required =
     [0xC774, 0xBA54, 0xC77C, 0xC744, 0x20, 0xC785, 0xB825, 0xD574, 0xC8FC, 0xC138, 0xC694]"

definition msg_email_pattern :: jsstring where
  "msg_email_pattern =
     [0xC62C, 0xBC14, 0xB978, 0x20, 0xC774, 0xBA54, 0xC77C, 0x20, 0xD615, 0xC2DD, 0xC73C,
      0xB85C, 0x20, 0xC785, 0xB825, 0xD574, 0xC8FC, 0xC138, 0xC694]"

definition msg_experience_required :: jsstring where
  "msg_experience_required =
     [0x46, 0x45, 0x20, 0xACBD, 0xB825, 0x20, 0xC5F0, 0xCC28, 0xB97C, 0x20,
      0xC120, 0xD0DD, 0xD574, 0xC8FC, 0xC138, 0xC694]"

definition msg_github_pattern :: jsstring where
  "msg_github_pattern =
     [0xC62C, 0xBC14, 0xB978, 0x20, 0x47, 0x69, 0x74, 0x68, 0x75, 0x62, 0x20, 0x55, 0x52,
      0x4C, 0x20, 0xD615, 0xC2DD, 0xC73C, 0xB85C, 0x20, 0xC785, 0xB825, 0xD574, 0xC8FC,
      0xC138, 0xC694]"

fun register_options :: "field \<Rightarrow> RegisterOptions" where
  "register_options Name =
     \<lparr>required = Some msg_name_required,
      minLength = Some (2, msg_name_minLength),
      pattern = None\<rparr>"
| "register_options Email =
     \<lparr>required = Some msg_email_required,
      minLength = None,
      pattern = Some (email_pattern, msg_email_pattern)\<rparr>"
| "register_options Experience =
     \<lparr>required = Some msg_experience_required,
      minLength = None,
      pattern = None\<rparr>"
| "register_options Github =
     \<lparr>required = None,
      minLength = None,
      pattern = Some (github_pattern, msg_github_pattern)\<rparr>"

text \<open>
  Modelled from the spec: the rule engine of the form library, which is a dependency and
  has no code under the repository's sources. The specification gives its contract: each
  field has a set of rules (required, minimum length, pattern), each with a message, and a
  submit attempt yields at most one error per field; a required field must be non-empty,
  and an optional one is checked only when it is non-empty. Accordingly: \<^verbatim>\<open>required\<close>
  fails on the empty value; \<^verbatim>\<open>minLength\<close> and \<^verbatim>\<open>pattern\<close> are skipped on the empty
  value; the first rule that fails, in this order, gives the field's single error, whose
  \<open>kind\<close> is the rule's name. This is also how the library behaves.
\<close>

definition check_required :: "RegisterOptions \<Rightarrow> jsstring \<Rightarrow> FieldError option" where
  "check_required opts v =
     (case required opts of
        None \<Rightarrow> None
      | Some m \<Rightarrow> if v = [] then Some \<lparr>kind = ''required'', message = m\<rparr> else None)"

definition check_minLength :: "RegisterOptions \<Rightarrow> jsstring \<Rightarrow> FieldError option" where
  "check_minLength opts v =
     (case minLength opts of
        None \<Rightarrow> None
      | Some (n, m) \<Rightarrow>
          if v \<noteq> [] \<and> length v < n then Some \<lparr>kind = ''minLength'', message = m\<rparr> else None)"

definition check_pattern :: "RegisterOptions \<Rightarrow> jsstring \<Rightarrow> FieldError option" where
  "check_pattern opts v =
     (case pattern opts of
        None \<Rightarrow> None
      | Some (r, m) \<Rightarrow>
          if v \<noteq> [] \<and> \<not> matches r v then Some \<lparr>kind = ''pattern'', message = m\<rparr> else None)"

definition validateField :: "RegisterOptions \<Rightarrow> jsstring \<Rightarrow> FieldError option" where
  \<comment> \<open>Modelled from the spec: the rule engine (absent from the sources), see above\<close>
  "validateField opts v =
     (case check_required opts v of
        Some e \<Rightarrow> Some e
      | None \<Rightarrow>
          (case check_minLength opts v of
             Some e \<Rightarrow> Some e
           | None \<Rightarrow> check_pattern opts v))"

definition validate :: "FormData \<Rightarrow> field \<Rightarrow> FieldError option" where
  "validate d f = validateField (register_options f) (getValue d f)"

definition registered :: "field list" where
  \<comment> \<open>in the order the inputs are registered\<close>
  "registered = [Name, Email, Experience, Github]"

definition isValid :: "FormData \<Rightarrow> bool" where
  "isValid d \<longleftrightarrow> list_all (\<lambda>f. validate d f = None) registered"


section \<open>The browser's own check of the typed inputs\<close>

text \<open>
  The form is rendered without \<^verbatim>\<open>noValidate\<close>, the email input has \<^verbatim>\<open>type="email"\<close>
  and the github input has \<^verbatim>\<open>type="url"\<close>. When the user submits, the browser first
  checks these controls itself and dispatches the submit event only if none of them suffers
  from a type mismatch; no other constraint attribute is rendered. \<open>valid_email_address\<close>
  is the HTML standard's definition of a valid e-mail address: one or more characters of
  the local-part set, \<^verbatim>\<open>@\<close>, and one or more labels separated by dots, each label of 1 to
  63 letters, digits and hyphens that neither starts nor ends with a hyphen. For
  \<^verbatim>\<open>type="url"\<close> only the certain case is modelled: a value that does not start with a
  scheme and a colon is not an absolute URL; a value that does is let through, although
  the browser refuses some of those as well.
\<close>

definition is_alpha :: "code_unit \<Rightarrow> bool" where
  "is_alpha c \<longleftrightarrow> (0x61 \<le> c \<and> c \<le> 0x7A) \<or> (0x41 \<le> c \<and> c \<le> 0x5A)"

definition is_digit :: "code_unit \<Rightarrow> bool" where
  "is_digit c \<longleftrightarrow> 0x30 \<le> c \<and> c \<le> 0x39"

definition local_part_char :: "code_unit \<Rightarrow> bool" where
  \<comment> \<open>letters, digits and \<^verbatim>\<open>.!#$%&'*+/=?^_`{|}~-\<close>\<close>
  "local_part_char c \<longleftrightarrow>
     is_alpha c \<or> is_digit c
     \<or> c \<in> set [0x2E, 0x21, 0x23, 0x24, 0x25, 0x26, 0x27, 0x2A, 0x2B, 0x2F, 0x3D, 0x3F,
                  0x5E, 0x5F, 0x60, 0x7B, 0x7C, 0x7D, 0x7E, 0x2D]"

definition label_char :: "code_unit \<Rightarrow> bool" where
  "label_char c \<longleftrightarrow> is_alpha c \<or> is_digit c \<or> c = 0x2D"

definition valid_label :: "jsstring \<Rightarrow> bool" where
  "valid_label l \<longleftrightarrow>
     l \<noteq> [] \<and> length l \<le> 63 \<and> list_all label_char l \<and> hd l \<noteq> 0x2D \<and> last l \<noteq> 0x2D"

fun split_on :: "code_unit \<Rightarrow> jsstring \<Rightarrow> jsstring list" where
  "split_on c [] = [[]]"
| "split_on c (x # xs) =
     (if x = c then [] # split_on c xs
      else (case split_on c xs of
              [] \<Rightarrow> [[x]]
            | p # ps \<Rightarrow> (x # p) # ps))"

definition valid_email_address :: "jsstring \<Rightarrow> bool" where
  "valid_email_address v \<longleftrightarrow>
     (let local_part = takeWhile (\<lambda>c. c \<noteq> 0x40) v;
          rest = dropWhile (\<lambda>c. c \<noteq> 0x40) v
      in local_part \<noteq> [] \<and> list_all local_part_char local_part
         \<and> (case rest of
               [] \<Rightarrow> False
             | at # domain \<Rightarrow> list_all valid_label (split_on 0x2E domain)))"

definition has_scheme :: "jsstring \<Rightarrow> bool" where
  "has_scheme v \<longleftrightarrow>
     (case v of
        [] \<Rightarrow> False
      | c # w \<Rightarrow>
          is_alpha c
          \<and> (case dropWhile (\<lambda>x. is_alpha x \<or> is_digit x \<or> x \<in> set [0x2B, 0x2D, 0x2E]) w of
                [] \<Rightarrow> False
              | d # r \<Rightarrow> d = 0x3A))"

fun type_mismatch :: "field \<Rightarrow> jsstring \<Rightarrow> bool" where
  "type_mismatch Name v = False"
| "type_mismatch Email v = (v \<noteq> [] \<and> \<not> valid_email_address v)"
| "type_mismatch Experience v = False"
| "type_mismatch Github v = (v \<noteq> [] \<and> \<not> has_scheme v)"

section \<open>The document tree\<close>

text \<open>
  An element is named after the styled component that creates it in
  \<^verbatim>\<open>ModalFormPage.tsx\<close>; the name stands for the identity of the DOM object
  (\<^verbatim>\<open>===\<close> on elements is equality of names). \<open>Control f\<close> is the \<^verbatim>\<open>Input\<close> or
  \<^verbatim>\<open>Select\<close> of field \<open>f\<close>, \<open>OptionEl i\<close> the i-th \<^verbatim>\<open>option\<close> of the select.
  A node carries its tag, its attributes as the HTML shows them, its own text and its
  children in document order. Only text that the component computes (an error message) is
  recorded; the fixed captions are left empty.
\<close>

datatype elem =
    ModalPage
  | OpenModalButton
  | ModalOverlay
  | ModalContent
  | ModalTitle
  | ModalDescription
  | FormGroupWrapper
  | FormGroup field
  | Label field
  | Control field
  | OptionEl nat
  | ErrorMessage field
  | FormActions
  | CancelButton
  | SubmitButton

datatype tagname = TDiv | TButton | TDialog | TH2 | TP | TForm | TLabel | TInput | TSelect | TOption

datatype node =
  Node (ident: elem) (tag: tagname) (attrs: "(string \<times> string) list")
       (textContent: jsstring) (children: "node list")

definition MODAL_TITLE :: string where "MODAL_TITLE = ''modal-title''"
definition MODAL_DESCRIPTION :: string where "MODAL_DESCRIPTION = ''modal-description''"
definition ERROR_NAME :: string where "ERROR_NAME = ''error-name''"
definition ERROR_EMAIL :: string where "ERROR_EMAIL = ''error-email''"
definition ERROR_EXPERIENCE :: string where "ERROR_EXPERIENCE = ''error-experience''"
definition ERROR_GITHUB :: string where "ERROR_GITHUB = ''error-github''"

fun error_id :: "field \<Rightarrow> string" where
  "error_id Name = ERROR_NAME"
| "error_id Email = ERROR_EMAIL"
| "error_id Experience = ERROR_EXPERIENCE"
| "error_id Github = ERROR_GITHUB"

fun field_id :: "field \<Rightarrow> string" where
  "field_id Name = ''name''"
| "field_id Email = ''email''"
| "field_id Experience = ''experience''"
| "field_id Github = ''github''"

definition aria :: "field \<Rightarrow> FieldError option \<Rightarrow> (string \<times> string) list" where
  \<comment> \<open>\<^verbatim>\<open>aria-invalid={errors.f ? "true" : "false"}\<close> and
      \<^verbatim>\<open>aria-describedby={errors.f ? ERROR_F : undefined}\<close>\<close>
  "aria f e =
     (case e of
        None \<Rightarrow> [(''aria-invalid'', ''false'')]
      | Some x \<Rightarrow> [(''aria-invalid'', ''true''), (''aria-describedby'', error_id f)])"

definition error_message :: "field \<Rightarrow> FieldError option \<Rightarrow> node list" where
  \<comment> \<open>\<^verbatim>\<open>{errors.f && (<ErrorMessage id=... role="alert" aria-live="assertive">...)}\<close>\<close>
  "error_message f e =
     (case e of
        None \<Rightarrow> []
      | Some x \<Rightarrow>
          [Node (ErrorMessage f) TDiv
             [(''id'', error_id f), (''role'', ''alert''), (''aria-live'', ''assertive'')]
             (message x) []])"

definition options :: "node list" where
  "options =
     [Node (OptionEl 0) TOption [(''value'', ''''), (''disabled'', '''')] [] [],
      Node (OptionEl 1) TOption [(''value'', ''0-3'')] [] [],
      Node (OptionEl 2) TOption [(''value'', ''4-7'')] [] [],
      Node (OptionEl 3) TOption [(''value'', ''8+'')] [] []]"

fun control :: "field \<Rightarrow> FieldError option \<Rightarrow> node" where
  "control Name e =
     Node (Control Name) TInput
       ([(''id'', ''name'')] @ aria Name e @ [(''name'', ''name'')]) [] []"
| "control Email e =
     Node (Control Email) TInput
       ([(''id'', ''email''), (''type'', ''email''), (''placeholder'', ''example@example.com'')]
        @ aria Email e @ [(''name'', ''email'')]) [] []"
| "control Experience e =
     Node (Control Experience) TSelect
       ([(''id'', ''experience'')] @ aria Experience e @ [(''name'', ''experience'')]) []
       options"
| "control Github e =
     Node (Control Github) TInput
       ([(''type'', ''url''), (''id'', ''github''), (''name'', ''github''),
         (''placeholder'', ''https://github.com/username'')] @ aria Github e) [] []"

definition form_group :: "field \<Rightarrow> FieldError option \<Rightarrow> node" where
  "form_group f e =
     Node (FormGroup f) TDiv [] []
       ([Node (Label f) TLabel [(''for'', field_id f)] [] [], control f e] @ error_message f e)"

definition modal_title :: node where
  \<comment> \<open>\<^verbatim>\<open><ModalTitle id={MODAL_TITLE} ref={modalTitleRef} tabIndex={0}>\<close>\<close>
  "modal_title = Node ModalTitle TH2 [(''id'', MODAL_TITLE), (''tabindex'', ''0'')] [] []"

definition form_actions :: node where
  "form_actions =
     Node FormActions TDiv [] []
       [Node CancelButton TButton [(''type'', ''button'')] [] [],
        Node SubmitButton TButton [(''type'', ''submit'')] [] []]"

definition form :: "(field \<Rightarrow> FieldError option) \<Rightarrow> node" where
  "form errs =
     Node FormGroupWrapper TForm [] []
       [form_group Name (errs Name),
        form_group Email (errs Email),
        form_group Experience (errs Experience),
        form_group Github (errs Github),
        form_actions]"

definition modal_content :: "(field \<Rightarrow> FieldError option) \<Rightarrow> node" where
  "modal_content errs =
     Node ModalContent TDiv [] []
       [modal_title,
        Node ModalDescription TP [(''id'', MODAL_DESCRIPTION)] [] [],
        form errs]"

definition modal :: "(field \<Rightarrow> FieldError option) \<Rightarrow> node" where
  "modal errs =
     Node ModalOverlay TDialog
       [(''aria-labelledby'', MODAL_TITLE), (''aria-describedby'', MODAL_DESCRIPTION)] []
       [modal_content errs]"

definition open_button :: node where
  "open_button = Node OpenModalButton TButton [] [] []"

definition render :: "bool \<Rightarrow> (field \<Rightarrow> FieldError option) \<Rightarrow> node" where
  \<comment> \<open>the JSX returned by the component; \<^verbatim>\<open>{isModalOpen && (<ModalOverlay ...>)}\<close>\<close>
  "render isOpen errs =
     Node ModalPage TDiv [] [] ([open_button] @ (if isOpen then [modal errs] else []))"

text \<open>Traversal, selectors and lookup.\<close>

fun descendants :: "node \<Rightarrow> node list" where
  "descendants (Node i t a x cs) = concat (map (\<lambda>c. c # descendants c) cs)"

datatype selector = AttrEquals string string | HasAttr string | TypeSel tagname

fun matches_selector :: "selector \<Rightarrow> node \<Rightarrow> bool" where
  "matches_selector (AttrEquals k v) n = (map_of (attrs n) k = Some v)"
| "matches_selector (HasAttr k) n = (map_of (attrs n) k \<noteq> None)"
| "matches_selector (TypeSel t) n = (tag n = t)"

definition matches_any :: "selector list \<Rightarrow> node \<Rightarrow> bool" where
  \<comment> \<open>a selector list matches an element when one of its selectors does\<close>
  "matches_any sels n = list_ex (\<lambda>sel. matches_selector sel n) sels"

definition querySelectorAll :: "selector list \<Rightarrow> node \<Rightarrow> node list" where
  "querySelectorAll sels root = filter (matches_any sels) (descendants root)"

definition focusable_selector :: "selector list" where
  \<comment> \<open>\<^verbatim>\<open>'[tabindex="0"], [href], input, select, button'\<close>\<close>
  "focusable_selector =
     [AttrEquals ''tabindex'' ''0'', HasAttr ''href'', TypeSel TInput, TypeSel TSelect,
      TypeSel TButton]"

definition find_node :: "elem \<Rightarrow> node \<Rightarrow> node option" where
  "find_node e root = find (\<lambda>n. ident n = e) (root # descendants root)"

fun path_to :: "elem \<Rightarrow> node \<Rightarrow> elem list" where
  \<comment> \<open>the propagation path of an event: the target first, the root last; empty when the
      target is not in the tree\<close>
  "path_to e (Node i t a x cs) =
     (if i = e then [i]
      else (case filter (\<lambda>p. p \<noteq> []) (map (path_to e) cs) of
              [] \<Rightarrow> []
            | p # ps \<Rightarrow> p @ [i]))"

definition focusable_area :: "node \<Rightarrow> bool" where
  \<comment> \<open>what \<^verbatim>\<open>focus()\<close> can focus: an enabled form control or button, a dialog, or any
      element with a \<^verbatim>\<open>tabindex\<close>. (The styled dialog sets \<^verbatim>\<open>display: flex\<close>, so its content
      is rendered whether or not the dialog has the \<^verbatim>\<open>open\<close> attribute.)\<close>
  "focusable_area n \<longleftrightarrow>
     (tag n \<in> {TButton, TInput, TSelect} \<and> map_of (attrs n) ''disabled'' = None)
     \<or> tag n = TDialog
     \<or> map_of (attrs n) ''tabindex'' \<noteq> None"


section \<open>The page: component state, refs and the platform state the component touches\<close>

text \<open>
  \<open>trace\<close> is the log of the platform operations the component has invoked, in order.
  A ref holds the element it is attached to, with its subtree; \<open>dialogOpen\<close> is the
  \<^verbatim>\<open>open\<close> attribute of the \<^verbatim>\<open>dialog\<close> element, which the JSX never sets: only
  \<^verbatim>\<open>showModal()\<close> and \<^verbatim>\<open>close()\<close> change it, so a dialog that is open is modal.
  \<open>queued\<close> is a state update requested by \<^verbatim>\<open>setIsModalOpen\<close> and not yet rendered:
  the handler that requested it keeps reading the state and the refs of the last commit.
  A keydown listener on the document is named by a number, fresh for each run of the effect
  (each run creates a new \<^verbatim>\<open>handleTabKey\<close> closure).
\<close>

datatype call =
    ShowModal
  | Close
  | Focus elem
  | AddEventListener nat
  | RemoveEventListener nat
  | PreventDefault
  | ConsoleLog FormData

datatype error = TypeError

record KeyboardEvent =
  key :: string
  shiftKey :: bool

record page =
  document :: "node option"
  isModalOpen :: bool
  queued :: "bool option"
  openButtonRef :: "node option"
  modalTitleRef :: "node option"
  modalRef :: "node option"
  modalContentRef :: "node option"
  dialogOpen :: bool
  previouslyFocused :: "elem option"
  activeElement :: "elem option"
  listeners :: "nat list"
  nextListener :: nat
  cleanup :: "nat option"
  formValues :: FormData
  errors :: "field \<Rightarrow> FieldError option"
  isSubmitted :: bool
  trace :: "call list"

subsection \<open>Platform operations\<close>

definition focus :: "node \<Rightarrow> page \<Rightarrow> page" where
  "focus n s =
     s\<lparr>trace := trace s @ [Focus (ident n)],
       activeElement := (if focusable_area n then Some (ident n) else activeElement s)\<rparr>"

fun optional_focus :: "node option \<Rightarrow> page \<Rightarrow> page" where
  \<comment> \<open>\<^verbatim>\<open>ref.current?.focus()\<close>\<close>
  "optional_focus None s = s"
| "optional_focus (Some n) s = focus n s"

definition showModal :: "node \<Rightarrow> page \<Rightarrow> page" where
  \<comment> \<open>on a dialog that is already open (hence modal) nothing happens; otherwise the
      attribute is set, the focused element is remembered and focus moves to the first
      focusable descendant of the dialog, or to the dialog itself\<close>
  "showModal d s =
     (let s1 = s\<lparr>trace := trace s @ [ShowModal]\<rparr> in
      if dialogOpen s1 then s1
      else s1\<lparr>dialogOpen := True,
              previouslyFocused := activeElement s1,
              activeElement :=
                (case filter focusable_area (descendants d) of
                   [] \<Rightarrow> Some (ident d)
                 | n # ns \<Rightarrow> Some (ident n))\<rparr>)"

definition close :: "node \<Rightarrow> page \<Rightarrow> page" where
  \<comment> \<open>on a dialog without the \<^verbatim>\<open>open\<close> attribute nothing happens; otherwise the attribute
      is removed and focus returns to the element remembered by \<^verbatim>\<open>showModal()\<close>\<close>
  "close d s =
     (let s1 = s\<lparr>trace := trace s @ [Close]\<rparr> in
      if \<not> dialogOpen s1 then s1
      else s1\<lparr>dialogOpen := False,
              previouslyFocused := None,
              activeElement :=
                (case previouslyFocused s1 of
                   None \<Rightarrow> activeElement s1
                 | Some e \<Rightarrow> Some e)\<rparr>)"

definition addEventListener :: "nat \<Rightarrow> page \<Rightarrow> page" where
  "addEventListener h s =
     s\<lparr>listeners := listeners s @ [h], trace := trace s @ [AddEventListener h]\<rparr>"

definition removeEventListener :: "nat \<Rightarrow> page \<Rightarrow> page" where
  "removeEventListener h s =
     s\<lparr>listeners := filter (\<lambda>k. k \<noteq> h) (listeners s),
       trace := trace s @ [RemoveEventListener h]\<rparr>"

definition preventDefault :: "page \<Rightarrow> page" where
  "preventDefault s = s\<lparr>trace := trace s @ [PreventDefault]\<rparr>"

subsection \<open>The form library's operations used by the component\<close>

text \<open>
  Modelled from the spec: \<^verbatim>\<open>reset\<close> and \<^verbatim>\<open>handleSubmit\<close> of the form library (absent
  from the sources). By the specification, opening resets all fields to their defaults, an
  invalid field blocks the submission and leaves the modal open, and on a fully valid
  submission the values are handed to the submit handler. Two defaults of the library on
  which the specification is silent are included so that the reachable states are not
  narrowed: after a failed submit the first invalid field is focused, and after the first
  submit a changed field is validated again at once.
\<close>

definition reset :: "page \<Rightarrow> page" where
  \<comment> \<open>Modelled from the spec: \<^verbatim>\<open>reset()\<close> of the form library, called without
      arguments: back to \<^verbatim>\<open>defaultValues\<close>, no errors, not submitted\<close>
  "reset s = s\<lparr>formValues := defaultValues, errors := (\<lambda>f. None), isSubmitted := False\<rparr>"

definition focusError :: "page \<Rightarrow> page" where
  \<comment> \<open>after a failed submit the library focuses the first registered field with an error,
      at once and once more deferred\<close>
  "focusError s =
     (case filter (\<lambda>f. errors s f \<noteq> None) registered of
        [] \<Rightarrow> s
      | f # fs \<Rightarrow>
          (case document s of
             None \<Rightarrow> s
           | Some t \<Rightarrow>
               optional_focus (find_node (Control f) t)
                 (optional_focus (find_node (Control f) t) s)))"

definition handleSubmit :: "(FormData \<Rightarrow> page \<Rightarrow> page) \<Rightarrow> page \<Rightarrow> page" where
  \<comment> \<open>Modelled from the spec: \<^verbatim>\<open>handleSubmit(onValid)\<close> of the form library: validate
      every field; call \<^verbatim>\<open>onValid\<close> with the current values only when no field has an
      error\<close>
  "handleSubmit onValid s =
     (let d = formValues s in
      if isValid d then (onValid d (s\<lparr>errors := (\<lambda>f. None)\<rparr>))\<lparr>isSubmitted := True\<rparr>
      else focusError (s\<lparr>errors := validate d, isSubmitted := True\<rparr>))"

definition onChange :: "field \<Rightarrow> jsstring \<Rightarrow> page \<Rightarrow> page" where
  \<comment> \<open>the user edits a field: the value is stored, and once the form has been submitted the
      field is validated again on every change\<close>
  "onChange f v s =
     (let s1 = s\<lparr>formValues := setValue f v (formValues s)\<rparr> in
      if isSubmitted s1
      then s1\<lparr>errors := (errors s1)(f := validateField (register_options f) v)\<rparr>
      else s1)"

subsection \<open>The component's functions\<close>

definition setIsModalOpen :: "bool \<Rightarrow> page \<Rightarrow> page" where
  "setIsModalOpen v s = s\<lparr>queued := Some v\<rparr>"

definition openModal :: "page \<Rightarrow> page" where
  \<comment> \<open>\<^verbatim>\<open>setIsModalOpen(true); modalRef.current?.showModal(); reset();\<close>\<close>
  "openModal s =
     (let s1 = setIsModalOpen True s;
          s2 = (case modalRef s1 of None \<Rightarrow> s1 | Some d \<Rightarrow> showModal d s1)
      in reset s2)"

definition closeModal :: "page \<Rightarrow> page" where
  \<comment> \<open>\<^verbatim>\<open>setIsModalOpen(false); modalRef.current?.close();\<close>\<close>
  "closeModal s =
     (let s1 = setIsModalOpen False s
      in (case modalRef s1 of None \<Rightarrow> s1 | Some d \<Rightarrow> close d s1))"

definition handleKeyDown :: "KeyboardEvent \<Rightarrow> page \<Rightarrow> page" where
  "handleKeyDown e s = (if key e = ''Escape'' then closeModal s else s)"

definition handleOverlayClick :: "elem \<Rightarrow> page \<Rightarrow> page" where
  \<comment> \<open>\<^verbatim>\<open>if (modalRef.current === event.target) closeModal();\<close>\<close>
  "handleOverlayClick target s =
     (case modalRef s of
        None \<Rightarrow> s
      | Some d \<Rightarrow> if ident d = target then closeModal s else s)"

definition onSubmit :: "FormData \<Rightarrow> page \<Rightarrow> page" where
  \<comment> \<open>\<^verbatim>\<open>console.log(..., data); closeModal();\<close>\<close>
  "onSubmit data s = closeModal (s\<lparr>trace := trace s @ [ConsoleLog data]\<rparr>)"

text \<open>
  \<^verbatim>\<open>handleTabKey\<close>. \<open>at_index\<close> is array indexing, \<open>None\<close> standing for
  \<^verbatim>\<open>undefined\<close>; \<open>same_element\<close> is \<^verbatim>\<open>document.activeElement === x\<close>, whose left side
  is an element or \<^verbatim>\<open>null\<close> and whose right side is an element or \<^verbatim>\<open>undefined\<close>;
  calling \<^verbatim>\<open>focus\<close> on \<^verbatim>\<open>undefined\<close> throws.
\<close>

definition at_index :: "'a list \<Rightarrow> int \<Rightarrow> 'a option" where
  "at_index xs i = (if 0 \<le> i \<and> i < int (length xs) then Some (xs ! nat i) else None)"

fun same_element :: "elem option \<Rightarrow> node option \<Rightarrow> bool" where
  "same_element (Some a) (Some n) = (a = ident n)"
| "same_element a x = False"

fun call_focus :: "node option \<Rightarrow> page \<Rightarrow> error + page" where
  "call_focus None s = Inl TypeError"
| "call_focus (Some n) s = Inr (focus n s)"

definition handleTabKey :: "KeyboardEvent \<Rightarrow> page \<Rightarrow> error + page" where
  \<comment> \<open>\<^verbatim>\<open>if (e.key === "Tab" && modalContentRef.current) { ... }\<close>\<close>
  "handleTabKey e s =
     (if key e = ''Tab'' then
        (case modalContentRef s of
           None \<Rightarrow> Inr s
         | Some content \<Rightarrow>
             (let focusableArray = querySelectorAll focusable_selector content;
                  firstElement = at_index focusableArray 0;
                  lastElement = at_index focusableArray (int (length focusableArray) - 1)
              in if shiftKey e \<and> same_element (activeElement s) firstElement
                   then call_focus lastElement (preventDefault s)
                 else if \<not> shiftKey e \<and> same_element (activeElement s) lastElement
                   then call_focus firstElement (preventDefault s)
                 else Inr s))
      else Inr s)"

subsection \<open>Rendering, commit and the effect\<close>

definition present :: "elem \<Rightarrow> node option \<Rightarrow> bool" where
  "present e t = (case t of None \<Rightarrow> False | Some n \<Rightarrow> find_node e n \<noteq> None)"

definition commit :: "page \<Rightarrow> page" where
  \<comment> \<open>render with the queued state and bring the document and the refs up to date. A ref of
      an element that is not rendered is \<^verbatim>\<open>null\<close>; a dialog element that is newly created
      has no \<^verbatim>\<open>open\<close> attribute; focus is lost when the focused element is removed\<close>
  "commit s =
     (let v = (case queued s of None \<Rightarrow> isModalOpen s | Some b \<Rightarrow> b);
          t = render v (errors s);
          kept = (present ModalOverlay (document s) \<and> find_node ModalOverlay t \<noteq> None)
      in s\<lparr>document := Some t,
           isModalOpen := v,
           queued := None,
           openButtonRef := find_node OpenModalButton t,
           modalTitleRef := find_node ModalTitle t,
           modalRef := find_node ModalOverlay t,
           modalContentRef := find_node ModalContent t,
           dialogOpen := (dialogOpen s \<and> kept),
           previouslyFocused := (if kept then previouslyFocused s else None),
           activeElement :=
             (case activeElement s of
                None \<Rightarrow> None
              | Some a \<Rightarrow> if find_node a t \<noteq> None then Some a else None)\<rparr>)"

definition effect :: "page \<Rightarrow> page" where
  \<comment> \<open>the callback of \<^verbatim>\<open>useEffect(..., [isModalOpen])\<close>; \<open>cleanup\<close> is what it returns\<close>
  "effect s =
     (if isModalOpen s then
        (let s1 = optional_focus (modalTitleRef s) s;
             handleTabKey_id = nextListener s1;
             s2 = addEventListener handleTabKey_id (s1\<lparr>nextListener := Suc handleTabKey_id\<rparr>)
         in s2\<lparr>cleanup := Some handleTabKey_id\<rparr>)
      else (optional_focus (openButtonRef s) s)\<lparr>cleanup := None\<rparr>)"

definition run_cleanup :: "page \<Rightarrow> page" where
  "run_cleanup s =
     (case cleanup s of
        None \<Rightarrow> s
      | Some h \<Rightarrow> (removeEventListener h s)\<lparr>cleanup := None\<rparr>)"

definition rerender :: "page \<Rightarrow> page" where
  \<comment> \<open>after a handler: commit, then, only when \<^verbatim>\<open>isModalOpen\<close> has changed, the cleanup of
      the previous effect followed by the effect\<close>
  "rerender s =
     (let s1 = commit s in
      if isModalOpen s1 \<noteq> isModalOpen s then effect (run_cleanup s1) else s1)"

definition initial :: page where
  "initial =
     \<lparr>document = None, isModalOpen = False, queued = None,
      openButtonRef = None, modalTitleRef = None, modalRef = None, modalContentRef = None,
      dialogOpen = False, previouslyFocused = None, activeElement = None,
      listeners = [], nextListener = 0, cleanup = None,
      formValues = defaultValues, errors = (\<lambda>f. None), isSubmitted = False, trace = []\<rparr>"

definition mount :: "bool \<Rightarrow> page" where
  \<comment> \<open>first render and first run of the effect; under \<^verbatim>\<open>StrictMode\<close> (development) the
      effect is cleaned up and run once more\<close>
  "mount strict =
     (let s = effect (commit initial) in
      if strict then effect (run_cleanup s) else s)"

definition unmount :: "page \<Rightarrow> page" where
  "unmount s =
     (run_cleanup s)\<lparr>document := None, openButtonRef := None, modalTitleRef := None,
       modalRef := None, modalContentRef := None, dialogOpen := False,
       previouslyFocused := None, activeElement := None\<rparr>"

subsection \<open>Events\<close>

text \<open>
  \<open>Click target\<close>: a click whose target is the given element; it bubbles through the
  \<^verbatim>\<open>onClick\<close> props on the way up, and \<^verbatim>\<open>ModalContent\<close> stops the propagation. No
  handler prevents the default action, so a click on the submit button then makes the
  browser try to submit the form (\<open>request_submit\<close>): it checks the typed inputs, and either
  dispatches the submit event or, at a type mismatch, dispatches nothing and moves the
  focus to the first control that failed.
  \<open>KeyDown e\<close>: a key pressed while \<open>activeElement\<close> has focus; it reaches the dialog's
  \<^verbatim>\<open>onKeyDown\<close> when the focus is inside the dialog, and then every keydown listener of the
  document. \<open>Change f v\<close>: the user sets field \<open>f\<close> to \<open>v\<close>. \<open>Submit\<close>: the form's submit
  event. \<open>MoveFocus\<close>: focus moved by the user or by the browser's default handling of a
  key. \<open>Unmount\<close>: the component is torn down. An event aimed at an element that is not in
  the document changes nothing. \<open>Submit\<close> is the dispatched submit event itself, with no
  restriction on the field values.
\<close>

datatype event =
    Click elem
  | KeyDown KeyboardEvent
  | Change field jsstring
  | Submit
  | MoveFocus "elem option"
  | Unmount

definition onClick :: "elem \<Rightarrow> elem \<Rightarrow> page \<Rightarrow> page" where
  \<comment> \<open>the \<^verbatim>\<open>onClick\<close> prop of element \<open>x\<close>, for a click with the given target\<close>
  "onClick x target s =
     (if x = OpenModalButton then openModal s
      else if x = CancelButton then closeModal s
      else if x = ModalOverlay then handleOverlayClick target s
      else s)"

fun bubble :: "elem list \<Rightarrow> elem \<Rightarrow> page \<Rightarrow> page" where
  "bubble [] target s = s"
| "bubble (x # xs) target s =
     (if x = ModalContent then s else bubble xs target (onClick x target s))"

definition click :: "elem \<Rightarrow> page \<Rightarrow> page" where
  "click target s =
     (case document s of
        None \<Rightarrow> s
      | Some t \<Rightarrow> bubble (path_to target t) target s)"

fun dispatch :: "nat list \<Rightarrow> KeyboardEvent \<Rightarrow> page \<Rightarrow> error + page" where
  "dispatch [] e s = Inr s"
| "dispatch (h # hs) e s =
     (case handleTabKey e s of
        Inl x \<Rightarrow> Inl x
      | Inr s' \<Rightarrow> dispatch hs e s')"

definition keydown :: "KeyboardEvent \<Rightarrow> page \<Rightarrow> error + page" where
  "keydown e s =
     (let s1 = (case activeElement s of
                  None \<Rightarrow> s
                | Some target \<Rightarrow>
                    (case document s of
                       None \<Rightarrow> s
                     | Some t \<Rightarrow>
                         if ModalOverlay \<in> set (path_to target t) then handleKeyDown e s
                         else s));
          s2 = rerender s1
      in dispatch (listeners s2) e s2)"

definition move_focus :: "elem option \<Rightarrow> page \<Rightarrow> page" where
  "move_focus target s =
     (case target of
        None \<Rightarrow> s\<lparr>activeElement := None\<rparr>
      | Some a \<Rightarrow>
          (case document s of
             None \<Rightarrow> s
           | Some t \<Rightarrow>
               (case find_node a t of
                  None \<Rightarrow> s
                | Some n \<Rightarrow> if focusable_area n then s\<lparr>activeElement := Some a\<rparr> else s)))"

definition request_submit :: "page \<Rightarrow> page" where
  "request_submit s =
     (if present FormGroupWrapper (document s) then
        (case filter (\<lambda>f. type_mismatch f (getValue (formValues s) f)) registered of
           [] \<Rightarrow> rerender (handleSubmit onSubmit s)
         | f # fs \<Rightarrow> move_focus (Some (Control f)) s)
      else s)"

fun step :: "page \<Rightarrow> event \<Rightarrow> error + page" where
  "step s (Click target) =
     (if document s = None then Inr s
      else if target = SubmitButton then Inr (request_submit (rerender (click target s)))
      else Inr (rerender (click target s)))"
| "step s (KeyDown e) =
     (if document s = None then Inr s else keydown e s)"
| "step s (Change f v) =
     (if present (Control f) (document s) then Inr (rerender (onChange f v s)) else Inr s)"
| "step s Submit =
     (if present FormGroupWrapper (document s) then Inr (rerender (handleSubmit onSubmit s))
      else Inr s)"
| "step s (MoveFocus target) =
     (if document s = None then Inr s else Inr (move_focus target s))"
| "step s Unmount =
     (if document s = None then Inr s else Inr (unmount s))"

fun run_from :: "page \<Rightarrow> event list \<Rightarrow> error + page" where
  "run_from s [] = Inr s"
| "run_from s (ev # evs) =
     (case step s ev of
        Inl x \<Rightarrow> Inl x
      | Inr s' \<Rightarrow> run_from s' evs)"

definition run :: "bool \<Rightarrow> event list \<Rightarrow> error + page" where
  "run strict evs = run_from (mount strict) evs"

text \<open>What the log says was handed to the submit callback.\<close>

fun submitted :: "call list \<Rightarrow> FormData list" where
  "submitted [] = []"
| "submitted (ConsoleLog d # cs) = d # submitted cs"
| "submitted (c # cs) = submitted cs"


section \<open>Predicates used to state the properties\<close>


text \<open>
  \<open>scoped\<close>: the document's keydown listeners are exactly the one the pending cleanup will
  remove, and there is a pending cleanup exactly when the modal is open. \<open>settled\<close>: the
  state between two events: no update is queued, the document is what the component
  renders from its state, and the refs point into it.
\<close>

definition tidy :: "page \<Rightarrow> bool" where
  "tidy s = (listeners s = (case cleanup s of None \<Rightarrow> [] | Some h \<Rightarrow> [h]))"

definition scoped :: "page \<Rightarrow> bool" where
  "scoped s = (tidy s \<and> (cleanup s \<noteq> None) = isModalOpen s)"

definition attached :: "page \<Rightarrow> node \<Rightarrow> bool" where
  "attached s t =
     (openButtonRef s = find_node OpenModalButton t
      \<and> modalTitleRef s = find_node ModalTitle t
      \<and> modalRef s = find_node ModalOverlay t
      \<and> modalContentRef s = find_node ModalContent t)"

definition settled :: "page \<Rightarrow> bool" where
  "settled s =
     (queued s = None
      \<and> (case document s of
           None \<Rightarrow> listeners s = [] \<and> cleanup s = None
         | Some t \<Rightarrow> t = render (isModalOpen s) (errors s) \<and> attached s t \<and> scoped s))"

text \<open>
  \<open>state_after\<close> names the state a run ends in. \<open>listener_calls\<close> keeps, from a log, the
  registrations and removals of document listeners. \<open>shown\<close>: the component is mounted and
  its modal is open.
\<close>

definition state_after :: "bool \<Rightarrow> event list \<Rightarrow> page" where
  "state_after strict evs = (case run strict evs of Inl x \<Rightarrow> initial | Inr s \<Rightarrow> s)"

fun listener_calls :: "call list \<Rightarrow> call list" where
  "listener_calls [] = []"
| "listener_calls (AddEventListener h # cs) = AddEventListener h # listener_calls cs"
| "listener_calls (RemoveEventListener h # cs) = RemoveEventListener h # listener_calls cs"
| "listener_calls (c # cs) = listener_calls cs"

definition shown :: "page \<Rightarrow> bool" where
  "shown s = (document s \<noteq> None \<and> isModalOpen s)"

text \<open>
  \<open>code_points\<close> counts the characters of a string as a reader does, one for each Unicode
  code point: a high surrogate followed by a low surrogate is one character.
  \<open>focus_in_document\<close>: the focused element, if any, is in the document.
\<close>

fun code_points :: "jsstring \<Rightarrow> nat" where
  "code_points [] = 0"
| "code_points [c] = 1"
| "code_points (c # d # w) =
     (if 0xD800 \<le> c \<and> c \<le> 0xDBFF \<and> 0xDC00 \<le> d \<and> d \<le> 0xDFFF
      then Suc (code_points w)
      else Suc (code_points (d # w)))"

definition focus_in_document :: "page \<Rightarrow> bool" where
  "focus_in_document s =
     (case activeElement s of None \<Rightarrow> True | Some a \<Rightarrow> present a (document s))"

text \<open>
  \<open>untouched s s'\<close>: what no event handler changes while it runs: the committed state, the
  document, the refs, the listeners and the pending cleanup.
\<close>

definition untouched :: "page \<Rightarrow> page \<Rightarrow> bool" where
  "untouched s s' =
     (document s' = document s \<and> isModalOpen s' = isModalOpen s
      \<and> listeners s' = listeners s \<and> cleanup s' = cleanup s
      \<and> nextListener s' = nextListener s
      \<and> openButtonRef s' = openButtonRef s \<and> modalTitleRef s' = modalTitleRef s
      \<and> modalRef s' = modalRef s \<and> modalContentRef s' = modalContentRef s
      \<and> listener_calls (trace s') = listener_calls (trace s))"
section \<open>Correctness of the matcher\<close>

lemma nullable_lang: "nullable r \<longleftrightarrow> [] \<in> lang r"
  by (induction r) (auto intro: iter.intros)

lemma iter_cons_split:
  assumes "x \<in> iter L" and "x = c # w"
  shows "\<exists>u v. w = u @ v \<and> c # u \<in> L \<and> v \<in> iter L"
  using assms
proof (induction arbitrary: w rule: iter.induct)
  case iter_nil
  then show ?case by simp
next
  case (iter_app u v)
  show ?case
  proof (cases u)
    case Nil
    with iter_app show ?thesis by simp
  next
    case (Cons a u')
    with iter_app.prems have "a = c" and "w = u' @ v" by simp_all
    with Cons iter_app.hyps show ?thesis by blast
  qed
qed

lemma iter_cons_iff:
  "c # w \<in> iter L \<longleftrightarrow> (\<exists>u v. w = u @ v \<and> c # u \<in> L \<and> v \<in> iter L)"
proof
  assume "c # w \<in> iter L"
  then show "\<exists>u v. w = u @ v \<and> c # u \<in> L \<and> v \<in> iter L"
    by (rule iter_cons_split) simp
next
  assume "\<exists>u v. w = u @ v \<and> c # u \<in> L \<and> v \<in> iter L"
  then obtain u v where "w = u @ v" "c # u \<in> L" "v \<in> iter L" by blast
  then show "c # w \<in> iter L"
    using iter_app [of "c # u" L v] by simp
qed

lemma lang_Seq_iff:
  "w \<in> lang (Seq r s) \<longleftrightarrow> (\<exists>u v. w = u @ v \<and> u \<in> lang r \<and> v \<in> lang s)"
  by simp

lemma deriv_lang: "w \<in> lang (deriv c r) \<longleftrightarrow> c # w \<in> lang r"
proof (induction r arbitrary: w)
  case Fail
  show ?case by simp
next
  case Eps
  show ?case by simp
next
  case (Atom p)
  show ?case by simp
next
  case (Alt r s)
  then show ?case by simp
next
  case (Seq r s)
  have left: "w \<in> lang (Seq (deriv c r) s) \<longleftrightarrow>
      (\<exists>u v. c # w = u @ v \<and> u \<noteq> [] \<and> u \<in> lang r \<and> v \<in> lang s)" (is "?A \<longleftrightarrow> ?B")
  proof
    assume ?A
    then obtain u v where "w = u @ v" "u \<in> lang (deriv c r)" "v \<in> lang s"
      unfolding lang_Seq_iff by blast
    then have "c # w = (c # u) @ v \<and> c # u \<noteq> [] \<and> c # u \<in> lang r \<and> v \<in> lang s"
      using Seq.IH(1) by simp
    then show ?B by blast
  next
    assume ?B
    then obtain u v where uv: "c # w = u @ v" "u \<noteq> []" "u \<in> lang r" "v \<in> lang s"
      by blast
    then obtain u' where u': "u = c # u'" "w = u' @ v"
      by (cases u) simp_all
    with uv have "u' \<in> lang (deriv c r)" using Seq.IH(1) by simp
    with u' uv(4) show ?A unfolding lang_Seq_iff by blast
  qed
  have right: "nullable r \<and> w \<in> lang (deriv c s) \<longleftrightarrow>
      (\<exists>u v. c # w = u @ v \<and> u = [] \<and> u \<in> lang r \<and> v \<in> lang s)"
    using Seq.IH(2) by (simp add: nullable_lang)
  have whole: "c # w \<in> lang (Seq r s) \<longleftrightarrow>
      (\<exists>u v. c # w = u @ v \<and> u \<noteq> [] \<and> u \<in> lang r \<and> v \<in> lang s)
      \<or> (\<exists>u v. c # w = u @ v \<and> u = [] \<and> u \<in> lang r \<and> v \<in> lang s)"
    unfolding lang_Seq_iff by blast
  show ?case
  proof (cases "nullable r")
    case True
    then have "w \<in> lang (deriv c (Seq r s)) \<longleftrightarrow>
        w \<in> lang (Seq (deriv c r) s) \<or> (nullable r \<and> w \<in> lang (deriv c s))"
      by simp
    with left right whole show ?thesis
      by blast
  next
    case False
    then have "w \<in> lang (deriv c (Seq r s)) \<longleftrightarrow> w \<in> lang (Seq (deriv c r) s)"
      by simp
    moreover from False
    have "\<not> (\<exists>u v. c # w = u @ v \<and> u = [] \<and> u \<in> lang r \<and> v \<in> lang s)"
      by (simp add: nullable_lang)
    ultimately show ?thesis
      using left whole by blast
  qed
next
  case (Star r)
  have "w \<in> lang (deriv c (Star r)) \<longleftrightarrow>
      (\<exists>u v. w = u @ v \<and> u \<in> lang (deriv c r) \<and> v \<in> iter (lang r))"
    by simp
  also have "\<dots> \<longleftrightarrow> (\<exists>u v. w = u @ v \<and> c # u \<in> lang r \<and> v \<in> iter (lang r))"
    using Star.IH by simp
  also have "\<dots> \<longleftrightarrow> c # w \<in> iter (lang r)"
    by (rule iter_cons_iff [symmetric])
  finally show ?case by simp
qed

lemma matches_lang: "matches r w \<longleftrightarrow> w \<in> lang r"
  by (induction w arbitrary: r) (simp_all add: nullable_lang deriv_lang)


section \<open>The two patterns and the rules of the four fields\<close>

lemma iter_atoms: "iter {[c] | c. p c} = {w. list_all p w}"
proof (rule set_eqI, rule iffI)
  fix w assume "w \<in> iter {[c] | c. p c}"
  then show "w \<in> {w. list_all p w}"
    by (induction rule: iter.induct) auto
next
  fix w assume "w \<in> {w. list_all p w}"
  then have "list_all p w" by simp
  then show "w \<in> iter {[c] | c. p c}"
  proof (induction w)
    case Nil
    show ?case by (rule iter_nil)
  next
    case (Cons a w)
    then have "[a] \<in> {[c] | c. p c}" "w \<in> iter {[c] | c. p c}" by simp_all
    then have "[a] @ w \<in> iter {[c] | c. p c}" by (rule iter_app)
    then show ?case by simp
  qed
qed

lemma lang_Plus1_Atom: "lang (Plus1 (Atom p)) = {w. w \<noteq> [] \<and> list_all p w}"
proof -
  have "lang (Plus1 (Atom p)) = {[c] @ v | c v. p c \<and> list_all p v}"
    unfolding Plus1_def lang.simps iter_atoms by blast
  also have "\<dots> = {w. w \<noteq> [] \<and> list_all p w}"
  proof (rule set_eqI, rule iffI)
    fix w assume "w \<in> {[c] @ v | c v. p c \<and> list_all p v}"
    then show "w \<in> {w. w \<noteq> [] \<and> list_all p w}" by auto
  next
    fix w assume "w \<in> {w. w \<noteq> [] \<and> list_all p w}"
    then obtain c v where "w = [c] @ v" "p c" "list_all p v"
      by (cases w) auto
    then show "w \<in> {[c] @ v | c v. p c \<and> list_all p v}" by blast
  qed
  finally show ?thesis .
qed

lemma lang_chr: "lang (chr c) = {[word_of_nat (of_char c)]}"
  by (auto simp: chr_def)

lemma matches_email_pattern:
  "matches email_pattern e \<longleftrightarrow>
     (\<exists>a b c. e = a @ js ''@'' @ b @ js ''.'' @ c
        \<and> a \<noteq> [] \<and> b \<noteq> [] \<and> c \<noteq> []
        \<and> list_all not_space_at a \<and> list_all not_space_at b \<and> list_all not_space_at c)"
proof -
  have "lang email_pattern =
      {a @ js ''@'' @ b @ js ''.'' @ c | a b c.
         a \<noteq> [] \<and> b \<noteq> [] \<and> c \<noteq> []
        \<and> list_all not_space_at a \<and> list_all not_space_at b \<and> list_all not_space_at c}"
    unfolding email_pattern_def lang.simps(5) lang_Plus1_Atom lang_chr js_def
    by (simp, blast)
  then show ?thesis
    unfolding matches_lang by blast
qed

lemma validate_name:
  "validate d Name =
     (if name d = [] then Some \<lparr>kind = ''required'', message = msg_name_required\<rparr>
      else if length (name d) < 2 then Some \<lparr>kind = ''minLength'', message = msg_name_minLength\<rparr>
      else None)"
  by (simp add: validate_def validateField_def check_required_def check_minLength_def
      check_pattern_def)

lemma validate_email:
  "validate d Email =
     (if email d = [] then Some \<lparr>kind = ''required'', message = msg_email_required\<rparr>
      else if \<not> matches email_pattern (email d)
        then Some \<lparr>kind = ''pattern'', message = msg_email_pattern\<rparr>
      else None)"
  by (simp add: validate_def validateField_def check_required_def check_minLength_def
      check_pattern_def)



lemma email_examples:
  "\<not> matches email_pattern (js ''not-an-email'')" "matches email_pattern (js ''a@b.co'')"
  "matches email_pattern (js ''jo@x.com'')"
  by code_simp+


lemma js_nonempty: "js ''not-an-email'' \<noteq> []" "js ''https://gitlab.com/x'' \<noteq> []"
  by (simp_all add: js_def)





section \<open>Facts about the rendered tree\<close>

lemma ident_control [simp]: "ident (control f e) = Control f"
  by (cases f) simp_all

lemma descendants_control:
  "descendants (control f e) = (if f = Experience then options else [])"
  by (cases f) (simp_all add: options_def)

lemma descendants_form_group:
  "descendants (form_group f e) =
     Node (Label f) TLabel [(''for'', field_id f)] [] [] # control f e
       # (if f = Experience then options else []) @ error_message f e"
proof -
  have "concat (map (\<lambda>c. c # descendants c) (error_message f e)) = error_message f e"
    by (cases e) (simp_all add: error_message_def)
  then show ?thesis
    by (simp add: form_group_def descendants_control)
qed

lemma descendants_form:
  "descendants (form errs) =
     concat (map (\<lambda>f. form_group f (errs f) # descendants (form_group f (errs f))) registered)
     @ [form_actions, Node CancelButton TButton [(''type'', ''button'')] [] [],
        Node SubmitButton TButton [(''type'', ''submit'')] [] []]"
  by (simp add: form_def registered_def form_actions_def)

lemma descendants_modal_content:
  "descendants (modal_content errs) =
     modal_title # Node ModalDescription TP [(''id'', MODAL_DESCRIPTION)] [] []
       # form errs # descendants (form errs)"
  by (simp add: modal_content_def modal_title_def)

lemma descendants_render:
  "descendants (render b errs) =
     open_button # (if b then modal errs # modal_content errs # descendants (modal_content errs)
                    else [])"
  by (simp add: render_def open_button_def modal_def)

lemma sel_simps:
  "matches_any focusable_selector (Node i t a x cs) =
     (map_of a ''tabindex'' = Some ''0'' \<or> map_of a ''href'' \<noteq> None
      \<or> t = TInput \<or> t = TSelect \<or> t = TButton)"
  by (simp add: matches_any_def focusable_selector_def)

lemma sel_control: "matches_any focusable_selector (control f e)"
  by (cases f) (simp_all add: sel_simps)

lemma sel_error_message: "filter (matches_any focusable_selector) (error_message f e) = []"
  by (cases e) (simp_all add: error_message_def sel_simps)

lemma sel_form_group: "\<not> matches_any focusable_selector (form_group f e)"
  by (simp add: form_group_def sel_simps)

lemma query_form_group: "filter (matches_any focusable_selector) (descendants (form_group f e)) = [control f e]"
  unfolding descendants_form_group
  by (simp add: sel_simps sel_control sel_error_message options_def)

lemma query_modal_content:
  "querySelectorAll focusable_selector (modal_content errs) =
     [modal_title, control Name (errs Name), control Email (errs Email),
      control Experience (errs Experience), control Github (errs Github),
      Node CancelButton TButton [(''type'', ''button'')] [] [],
      Node SubmitButton TButton [(''type'', ''submit'')] [] []]"
proof -
  have "querySelectorAll focusable_selector (modal_content errs)
      = filter (matches_any focusable_selector) (descendants (modal_content errs))"
    by (simp add: querySelectorAll_def)
  also have "\<dots> = modal_title # filter (matches_any focusable_selector) (descendants (form errs))"
    unfolding descendants_modal_content
    by (simp add: sel_simps modal_title_def form_def)
  also have "filter (matches_any focusable_selector) (descendants (form errs)) =
      [control Name (errs Name), control Email (errs Email),
       control Experience (errs Experience), control Github (errs Github),
       Node CancelButton TButton [(''type'', ''button'')] [] [],
       Node SubmitButton TButton [(''type'', ''submit'')] [] []]"
    unfolding descendants_form registered_def
    by (simp add: sel_form_group query_form_group sel_simps form_actions_def)
  finally show ?thesis .
qed

lemma focusable_modal_title: "focusable_area modal_title"
  by (simp add: focusable_area_def modal_title_def)

lemma focusable_open_button: "focusable_area open_button"
  by (simp add: focusable_area_def open_button_def)

lemma focusable_submit: "focusable_area (Node SubmitButton TButton [(''type'', ''submit'')] [] [])"
  by (simp add: focusable_area_def)

text \<open>Lookup of an element by identity.\<close>

lemma find_error_message:
  "find (\<lambda>n. ident n = x) (error_message f e) =
     (if x = ErrorMessage f then (case error_message f e of [] \<Rightarrow> None | m # ms \<Rightarrow> Some m)
      else None)"
  by (cases e) (simp_all add: error_message_def)

lemma find_app:
  "find P (xs @ ys) = (case find P xs of None \<Rightarrow> find P ys | Some x \<Rightarrow> Some x)"
  by (induction xs) simp_all

lemma find_node_open_button: "find_node OpenModalButton (render b errs) = Some open_button"
  by (simp add: find_node_def descendants_render open_button_def render_def)

lemma find_node_modal:
  "find_node ModalOverlay (render b errs) = (if b then Some (modal errs) else None)"
  by (simp add: find_node_def descendants_render open_button_def render_def modal_def)

lemma find_node_modal_content:
  "find_node ModalContent (render b errs) = (if b then Some (modal_content errs) else None)"
  by (simp add: find_node_def descendants_render open_button_def render_def modal_def
      modal_content_def)

lemma find_node_modal_title:
  "find_node ModalTitle (render b errs) = (if b then Some modal_title else None)"
  by (simp add: find_node_def descendants_render descendants_modal_content open_button_def
      render_def modal_def modal_content_def modal_title_def)

lemma focus_open_button:
  "focus open_button s =
     s\<lparr>trace := trace s @ [Focus OpenModalButton], activeElement := Some OpenModalButton\<rparr>"
  by (simp add: focus_def focusable_area_def open_button_def)

lemma focus_modal_title:
  "focus modal_title s =
     s\<lparr>trace := trace s @ [Focus ModalTitle], activeElement := Some ModalTitle\<rparr>"
  by (simp add: focus_def focusable_area_def modal_title_def)

text \<open>The propagation path of a click on the submit button.\<close>

lemma path_to_submit_form_group: "path_to SubmitButton (form_group f e) = []"
  by (cases f; cases e) (simp_all add: form_group_def error_message_def options_def)

lemma path_to_submit_button:
  "path_to SubmitButton (render b errs) =
     (if b then [SubmitButton, FormActions, FormGroupWrapper, ModalContent, ModalOverlay,
                 ModalPage]
      else [])"
  by (simp add: render_def open_button_def modal_def modal_content_def modal_title_def
      form_def form_actions_def path_to_submit_form_group)


section \<open>What the handlers leave alone\<close>

lemma scoped_focus [simp]: "scoped (focus n s) = scoped s"
  by (simp add: scoped_def tidy_def focus_def)

lemma scoped_optional_focus [simp]: "scoped (optional_focus r s) = scoped s"
  by (cases r) simp_all

lemma scoped_showModal [simp]: "scoped (showModal d s) = scoped s"
  by (simp add: scoped_def tidy_def showModal_def Let_def)

lemma scoped_close [simp]: "scoped (close d s) = scoped s"
  by (simp add: scoped_def tidy_def close_def Let_def)

lemma scoped_reset [simp]: "scoped (reset s) = scoped s"
  by (simp add: scoped_def tidy_def reset_def)

lemma scoped_openModal [simp]: "scoped (openModal s) = scoped s"
  by (simp add: openModal_def setIsModalOpen_def Let_def scoped_def tidy_def
      showModal_def reset_def split: option.splits)

lemma scoped_closeModal [simp]: "scoped (closeModal s) = scoped s"
  by (simp add: closeModal_def setIsModalOpen_def Let_def scoped_def tidy_def
      close_def split: option.splits)

lemma scoped_handleOverlayClick [simp]: "scoped (handleOverlayClick t s) = scoped s"
  by (simp add: handleOverlayClick_def split: option.splits)

lemma scoped_handleKeyDown [simp]: "scoped (handleKeyDown e s) = scoped s"
  by (simp add: handleKeyDown_def)

lemma scoped_onClick [simp]: "scoped (onClick x t s) = scoped s"
  by (simp add: onClick_def)

lemma scoped_bubble [simp]: "scoped (bubble xs t s) = scoped s"
  by (induction xs arbitrary: s) simp_all

lemma scoped_click [simp]: "scoped (click t s) = scoped s"
  by (simp add: click_def split: option.splits)

lemma scoped_onChange [simp]: "scoped (onChange f v s) = scoped s"
  by (simp add: onChange_def Let_def scoped_def tidy_def)

lemma scoped_focusError [simp]: "scoped (focusError s) = scoped s"
  by (simp add: focusError_def split: list.splits option.splits)

lemma scoped_onSubmit [simp]: "scoped (onSubmit d s) = scoped (s)"
proof -
  have "scoped (s\<lparr>trace := trace s @ [ConsoleLog d]\<rparr>) = scoped s"
    by (simp add: scoped_def tidy_def)
  then show ?thesis by (simp add: onSubmit_def)
qed

lemma scoped_handleSubmit [simp]: "scoped (handleSubmit onSubmit s) = scoped s"
proof -
  have a: "scoped (s\<lparr>errors := x\<rparr>) = scoped s" for x
    by (simp add: scoped_def tidy_def)
  have b: "scoped (s\<lparr>errors := x, isSubmitted := True\<rparr>) = scoped s" for x
    by (simp add: scoped_def tidy_def)
  have c: "scoped (t\<lparr>isSubmitted := True\<rparr>) = scoped t" for t
    by (simp add: scoped_def tidy_def)
  show ?thesis
    by (simp add: handleSubmit_def Let_def a b c)
qed

section \<open>Commit and effect\<close>

lemma commit_fields:
  "document (commit s) =
     Some (render (case queued s of None \<Rightarrow> isModalOpen s | Some b \<Rightarrow> b) (errors s))"
  "isModalOpen (commit s) = (case queued s of None \<Rightarrow> isModalOpen s | Some b \<Rightarrow> b)"
  "queued (commit s) = None"
  "errors (commit s) = errors s"
  "listeners (commit s) = listeners s"
  "cleanup (commit s) = cleanup s"
  "formValues (commit s) = formValues s"
  "trace (commit s) = trace s"
  "attached (commit s)
     (render (case queued s of None \<Rightarrow> isModalOpen s | Some b \<Rightarrow> b) (errors s))"
  "nextListener (commit s) = nextListener s"
  by (simp_all add: commit_def Let_def attached_def)

lemma effect_fields:
  "document (effect s) = document s"
  "isModalOpen (effect s) = isModalOpen s"
  "queued (effect s) = queued s"
  "errors (effect s) = errors s"
  "formValues (effect s) = formValues s"
  "attached (effect s) t = attached s t"
  by (cases "modalTitleRef s"; cases "openButtonRef s";
      simp add: effect_def Let_def addEventListener_def focus_def attached_def)+

lemma run_cleanup_fields:
  "document (run_cleanup s) = document s"
  "isModalOpen (run_cleanup s) = isModalOpen s"
  "queued (run_cleanup s) = queued s"
  "errors (run_cleanup s) = errors s"
  "formValues (run_cleanup s) = formValues s"
  "attached (run_cleanup s) t = attached s t"
  "cleanup (run_cleanup s) = None"
  by (simp_all add: run_cleanup_def removeEventListener_def attached_def split: option.splits)

lemma listeners_run_cleanup: "tidy s \<Longrightarrow> listeners (run_cleanup s) = []"
  by (simp add: tidy_def run_cleanup_def removeEventListener_def split: option.splits)

lemma scoped_effect: "listeners s = [] \<Longrightarrow> scoped (effect s)"
  by (cases "modalTitleRef s"; cases "openButtonRef s";
      simp add: effect_def Let_def addEventListener_def focus_def scoped_def tidy_def)

lemma settled_effect_cleanup:
  assumes "tidy s" and "queued s = None"
    and "document s = Some (render (isModalOpen s) (errors s))"
    and "attached s (render (isModalOpen s) (errors s))"
  shows "settled (effect (run_cleanup s))"
proof -
  have "scoped (effect (run_cleanup s))"
    using assms(1) by (intro scoped_effect listeners_run_cleanup)
  with assms(2-4) show ?thesis
    by (simp add: settled_def effect_fields run_cleanup_fields)
qed

lemma tidy_commit [simp]: "tidy (commit s) = tidy s"
  by (simp add: tidy_def commit_fields)

lemma settled_rerender: "scoped s \<Longrightarrow> settled (rerender s)"
proof -
  assume sc: "scoped s"
  show ?thesis
  proof (cases "isModalOpen (commit s) = isModalOpen s")
    case True
    with sc have "scoped (commit s)"
      by (simp add: scoped_def commit_fields(6))
    moreover from True have "attached (commit s) (render (isModalOpen s) (errors s))"
      using commit_fields(9) [of s] by (simp add: commit_fields(2))
    moreover from True have "document (commit s) = Some (render (isModalOpen s) (errors s))"
      using commit_fields(1) [of s] by (simp add: commit_fields(2))
    ultimately show ?thesis
      using True by (simp add: rerender_def Let_def settled_def commit_fields(2-4))
  next
    case False
    have "settled (effect (run_cleanup (commit s)))"
      using sc by (intro settled_effect_cleanup) (simp_all add: scoped_def commit_fields)
    with False show ?thesis
      by (simp add: rerender_def Let_def)
  qed
qed

lemma settled_mount: "settled (mount strict)"
proof -
  have t: "tidy initial" by (simp add: tidy_def initial_def)
  have a: "settled (effect (commit initial))"
  proof -
    have "listeners (commit initial) = []"
      by (simp add: commit_fields initial_def)
    then have "scoped (effect (commit initial))" by (rule scoped_effect)
    then show ?thesis
      by (simp add: settled_def effect_fields commit_fields)
  qed
  then have "settled (effect (run_cleanup (effect (commit initial))))"
    by (intro settled_effect_cleanup)
       (simp_all add: settled_def scoped_def effect_fields commit_fields)
  with a show ?thesis by (simp add: mount_def Let_def)
qed


section \<open>The Tab handler\<close>

lemma at_index_first: "at_index xs 0 = (case xs of [] \<Rightarrow> None | x # ys \<Rightarrow> Some x)"
  by (cases xs) (simp_all add: at_index_def)

lemma at_index_last:
  "at_index xs (int (length xs) - 1) = (if xs = [] then None else Some (last xs))"
proof (cases xs rule: rev_cases)
  case Nil
  then show ?thesis by (simp add: at_index_def)
next
  case (snoc ys y)
  then show ?thesis by (simp add: at_index_def nth_append)
qed

lemma same_element_Some: "same_element a (Some n) = (a = Some (ident n))"
  by (cases a) auto

lemma same_element_None: "same_element a None = False"
  by (cases a) auto

lemma handleTabKey_cases:
  assumes "modalContentRef s = Some c" and "key e = ''Tab''"
  shows "handleTabKey e s =
     (let fs = querySelectorAll focusable_selector c in
      if fs \<noteq> [] \<and> shiftKey e \<and> activeElement s = Some (ident (hd fs))
        then Inr (focus (last fs) (preventDefault s))
      else if fs \<noteq> [] \<and> \<not> shiftKey e \<and> activeElement s = Some (ident (last fs))
        then Inr (focus (hd fs) (preventDefault s))
      else Inr s)"
proof (cases "querySelectorAll focusable_selector c")
  case Nil
  with assms show ?thesis
    by (simp add: handleTabKey_def at_index_def same_element_None)
next
  case (Cons x xs)
  with assms show ?thesis
    by (simp add: handleTabKey_def Let_def at_index_first at_index_last same_element_Some
        preventDefault_def)
qed

lemma handleTabKey_other_key: "key e \<noteq> ''Tab'' \<Longrightarrow> handleTabKey e s = Inr s"
  by (simp add: handleTabKey_def split: option.splits)

lemma handleTabKey_no_content: "modalContentRef s = None \<Longrightarrow> handleTabKey e s = Inr s"
  by (simp add: handleTabKey_def)

lemma handleTabKey_shape:
  "handleTabKey e s = Inr s \<or> (\<exists>n. handleTabKey e s = Inr (focus n (preventDefault s)))"
proof (cases "modalContentRef s")
  case None
  then show ?thesis by (simp add: handleTabKey_no_content)
next
  case (Some c)
  show ?thesis
  proof (cases "key e = ''Tab''")
    case True
    show ?thesis
      unfolding handleTabKey_cases [OF Some True] Let_def by auto
  next
    case False
    then show ?thesis by (simp add: handleTabKey_other_key)
  qed
qed

lemma handleTabKey_returns: "\<exists>s'. handleTabKey e s = Inr s'"
  using handleTabKey_shape [of e s] by auto

lemma settled_focus_preventDefault [simp]: "settled (focus n (preventDefault s)) = settled s"
  by (simp add: settled_def focus_def preventDefault_def attached_def scoped_def tidy_def
      split: option.splits)

lemma settled_handleTabKey: "handleTabKey e s = Inr s' \<Longrightarrow> settled s' = settled s"
  using handleTabKey_shape [of e s] by auto

lemma dispatch_returns: "\<exists>s'. dispatch hs e s = Inr s'"
proof (induction hs arbitrary: s)
  case Nil
  show ?case by simp
next
  case (Cons h hs)
  obtain s1 where "handleTabKey e s = Inr s1"
    using handleTabKey_returns by blast
  with Cons show ?case by simp
qed

lemma settled_dispatch: "dispatch hs e s = Inr s' \<Longrightarrow> settled s' = settled s"
proof (induction hs arbitrary: s)
  case Nil
  then show ?case by simp
next
  case (Cons h hs)
  then show ?case
    by (auto split: sum.splits dest: settled_handleTabKey)
qed

lemma dispatch_other_key: "key e \<noteq> ''Tab'' \<Longrightarrow> dispatch hs e s = Inr s"
  by (induction hs) (simp_all add: handleTabKey_other_key)

section \<open>Every event leads from a settled state to a settled state\<close>

lemma settled_scoped: "settled s \<Longrightarrow> document s \<noteq> None \<Longrightarrow> scoped s"
  by (auto simp: settled_def)

lemma settled_move_focus [simp]: "settled (move_focus t s) = settled s"
  by (simp add: move_focus_def settled_def attached_def scoped_def tidy_def
      split: option.splits)

lemma settled_unmount: "settled s \<Longrightarrow> settled (unmount s)"
proof -
  assume st: "settled s"
  have "cleanup s = None \<Longrightarrow> listeners s = [] "
    using st by (auto simp: settled_def scoped_def tidy_def split: option.splits)
  moreover have "tidy s"
    using st by (auto simp: settled_def scoped_def tidy_def split: option.splits)
  ultimately have "listeners (run_cleanup s) = []"
    by (simp add: listeners_run_cleanup)
  moreover have "queued s = None" using st by (simp add: settled_def)
  ultimately show ?thesis
    by (simp add: settled_def unmount_def run_cleanup_fields)
qed

lemma present_document: "present e (document s) \<Longrightarrow> document s \<noteq> None"
  by (auto simp: present_def split: option.splits)

lemma keydown_unfold:
  "keydown e s = dispatch (listeners (rerender (pre s))) e (rerender (pre s)) \<and>
   scoped (pre s) = scoped s" if "pre = (\<lambda>s.
     (case activeElement s of
        None \<Rightarrow> s
      | Some target \<Rightarrow>
          (case document s of
             None \<Rightarrow> s
           | Some t \<Rightarrow>
               if ModalOverlay \<in> set (path_to target t) then handleKeyDown e s else s)))"
  by (simp add: keydown_def Let_def that split: option.splits)

lemma settled_request_submit: "settled s \<Longrightarrow> settled (request_submit s)"
proof (cases "present FormGroupWrapper (document s)")
  case True
  assume st: "settled s"
  from True have "document s \<noteq> None" by (rule present_document)
  with st have "scoped s" by (rule settled_scoped)
  then have "settled (rerender (handleSubmit onSubmit s))"
    by (simp add: settled_rerender)
  with st True show ?thesis
    by (simp add: request_submit_def split: list.splits)
next
  case False
  assume "settled s"
  with False show ?thesis by (simp add: request_submit_def)
qed

lemma settled_step:
  assumes "settled s" and "step s ev = Inr s'"
  shows "settled s'"
proof (cases "document s = None")
  case True
  with assms show ?thesis
    by (cases ev) (auto simp: present_def)
next
  case False
  with assms(1) have sc: "scoped s" by (rule settled_scoped)
  show ?thesis
  proof (cases ev)
    case (Click t)
    from sc have "settled (rerender (click t s))"
      by (simp add: settled_rerender)
    with assms(2) False Click show ?thesis
      by (auto intro: settled_request_submit split: if_splits)
  next
    case (KeyDown e)
    define pre where "pre = (\<lambda>s.
     (case activeElement s of
        None \<Rightarrow> s
      | Some target \<Rightarrow>
          (case document s of
             None \<Rightarrow> s
           | Some t \<Rightarrow>
               if ModalOverlay \<in> set (path_to target t) then handleKeyDown e s else s)))"
    from keydown_unfold [OF pre_def] sc
    have k: "keydown e s = dispatch (listeners (rerender (pre s))) e (rerender (pre s))"
      and "scoped (pre s)" by simp_all
    then have "settled (rerender (pre s))" by (simp add: settled_rerender)
    with k assms(2) KeyDown False show ?thesis
      by (simp add: settled_dispatch)
  next
    case (Change f v)
    with assms sc show ?thesis
      by (auto intro: settled_rerender split: if_splits)
  next
    case Submit
    with assms sc show ?thesis
      by (auto intro: settled_rerender split: if_splits)
  next
    case (MoveFocus t)
    with assms False show ?thesis by auto
  next
    case Unmount
    with assms False show ?thesis by (auto intro: settled_unmount)
  qed
qed

lemma step_returns: "\<exists>s'. step s ev = Inr s'"
  by (cases ev) (simp_all add: keydown_def Let_def dispatch_returns)

lemma run_from_returns: "\<exists>s'. run_from s evs = Inr s'"
proof (induction evs arbitrary: s)
  case Nil
  show ?case by simp
next
  case (Cons ev evs)
  obtain s1 where "step s ev = Inr s1" using step_returns by blast
  with Cons show ?case by simp
qed

lemma settled_run_from: "settled s \<Longrightarrow> run_from s evs = Inr s' \<Longrightarrow> settled s'"
proof (induction evs arbitrary: s)
  case Nil
  then show ?case by simp
next
  case (Cons ev evs)
  then show ?case
    by (auto split: sum.splits dest: settled_step)
qed

lemma settled_run: "run strict evs = Inr s \<Longrightarrow> settled s"
  unfolding run_def using settled_mount by (rule settled_run_from)

lemma run_from_snoc:
  "run_from s (evs @ [ev]) = (case run_from s evs of Inl x \<Rightarrow> Inl x | Inr s' \<Rightarrow> step s' ev)"
  by (induction evs arbitrary: s) (auto split: sum.splits)

section \<open>Handlers change neither the committed state nor the listeners\<close>

lemma listener_calls_append [simp]:
  "listener_calls (xs @ ys) = listener_calls xs @ listener_calls ys"
  by (induction xs rule: listener_calls.induct) simp_all

lemma untouched_refl [simp]: "untouched s s"
  by (simp add: untouched_def)

lemma untouched_trans: "untouched s s1 \<Longrightarrow> untouched s1 s2 \<Longrightarrow> untouched s s2"
  by (simp add: untouched_def)

lemma untouched_focus [simp]: "untouched s (focus n s)"
  by (simp add: untouched_def focus_def)

lemma untouched_optional_focus [simp]: "untouched s (optional_focus r s)"
  by (cases r) simp_all

lemma untouched_preventDefault [simp]: "untouched s (preventDefault s)"
  by (simp add: untouched_def preventDefault_def)

lemma untouched_showModal [simp]: "untouched s (showModal d s)"
  by (simp add: untouched_def showModal_def Let_def)

lemma untouched_close [simp]: "untouched s (close d s)"
  by (simp add: untouched_def close_def Let_def)

lemma untouched_reset [simp]: "untouched s (reset s)"
  by (simp add: untouched_def reset_def)

lemma untouched_setIsModalOpen [simp]: "untouched s (setIsModalOpen v s)"
  by (simp add: untouched_def setIsModalOpen_def)

lemma untouched_openModal [simp]: "untouched s (openModal s)"
proof -
  let ?s1 = "setIsModalOpen True s"
  let ?s2 = "case modalRef ?s1 of None \<Rightarrow> ?s1 | Some d \<Rightarrow> showModal d ?s1"
  have "untouched ?s1 ?s2" by (simp split: option.splits)
  then have "untouched s ?s2" by (rule untouched_trans [rotated]) simp
  then have "untouched s (reset ?s2)" by (rule untouched_trans) simp
  then show ?thesis by (simp add: openModal_def Let_def)
qed

lemma untouched_closeModal [simp]: "untouched s (closeModal s)"
proof -
  let ?s1 = "setIsModalOpen False s"
  have "untouched ?s1 (case modalRef ?s1 of None \<Rightarrow> ?s1 | Some d \<Rightarrow> close d ?s1)"
    by (simp split: option.splits)
  then have "untouched s (case modalRef ?s1 of None \<Rightarrow> ?s1 | Some d \<Rightarrow> close d ?s1)"
    by (rule untouched_trans [rotated]) simp
  then show ?thesis by (simp add: closeModal_def Let_def)
qed

lemma untouched_handleOverlayClick [simp]: "untouched s (handleOverlayClick t s)"
  by (simp add: handleOverlayClick_def split: option.splits)

lemma untouched_handleKeyDown [simp]: "untouched s (handleKeyDown e s)"
  by (simp add: handleKeyDown_def)

lemma untouched_onClick [simp]: "untouched s (onClick x t s)"
  by (simp add: onClick_def)

lemma untouched_bubble [simp]: "untouched s (bubble xs t s)"
proof (induction xs arbitrary: s)
  case Nil
  show ?case by simp
next
  case (Cons x xs)
  have "untouched s (bubble xs t (onClick x t s))"
    by (rule untouched_trans [OF untouched_onClick Cons])
  then show ?case by simp
qed

lemma untouched_click [simp]: "untouched s (click t s)"
  by (simp add: click_def split: option.splits)

lemma untouched_onChange [simp]: "untouched s (onChange f v s)"
  by (simp add: untouched_def onChange_def Let_def)

lemma untouched_focusError [simp]: "untouched s (focusError s)"
proof -
  have "untouched s (optional_focus r (optional_focus r s))" for r
    by (rule untouched_trans [OF untouched_optional_focus untouched_optional_focus])
  then show ?thesis
    by (simp add: focusError_def split: list.splits option.splits)
qed

lemma untouched_onSubmit [simp]: "untouched s (onSubmit d s)"
proof -
  have "untouched s (s\<lparr>trace := trace s @ [ConsoleLog d]\<rparr>)"
    by (simp add: untouched_def)
  then show ?thesis
    unfolding onSubmit_def by (rule untouched_trans) simp
qed

lemma untouched_handleSubmit [simp]: "untouched s (handleSubmit onSubmit s)"
proof (cases "isValid (formValues s)")
  case True
  have "untouched s (s\<lparr>errors := (\<lambda>f. None)\<rparr>)" by (simp add: untouched_def)
  then have "untouched s (onSubmit (formValues s) (s\<lparr>errors := (\<lambda>f. None)\<rparr>))"
    by (rule untouched_trans) simp
  then have "untouched s ((onSubmit (formValues s) (s\<lparr>errors := (\<lambda>f. None)\<rparr>))\<lparr>isSubmitted := True\<rparr>)"
    by (simp add: untouched_def)
  with True show ?thesis by (simp add: handleSubmit_def Let_def)
next
  case False
  have "untouched s (s\<lparr>errors := validate (formValues s), isSubmitted := True\<rparr>)"
    by (simp add: untouched_def)
  then have "untouched s (focusError (s\<lparr>errors := validate (formValues s), isSubmitted := True\<rparr>))"
    by (rule untouched_trans) simp
  with False show ?thesis by (simp add: handleSubmit_def Let_def)
qed

lemma untouched_move_focus [simp]: "untouched s (move_focus t s)"
  by (simp add: untouched_def move_focus_def split: option.splits)

lemma untouched_handleTabKey: "handleTabKey e s = Inr s' \<Longrightarrow> untouched s s'"
proof -
  assume h: "handleTabKey e s = Inr s'"
  have "untouched s (focus n (preventDefault s))" for n
    by (rule untouched_trans [OF untouched_preventDefault untouched_focus])
  with h handleTabKey_shape [of e s] show ?thesis by auto
qed

lemma untouched_dispatch: "dispatch hs e s = Inr s' \<Longrightarrow> untouched s s'"
proof (induction hs arbitrary: s)
  case Nil
  then show ?case by simp
next
  case (Cons h hs)
  then obtain s1 where "handleTabKey e s = Inr s1" "dispatch hs e s1 = Inr s'"
    by (auto split: sum.splits)
  with Cons.IH show ?case
    by (blast intro: untouched_trans untouched_handleTabKey)
qed

lemma untouched_scoped: "untouched s s' \<Longrightarrow> scoped s' = scoped s"
  by (simp add: untouched_def scoped_def tidy_def)

section \<open>What a render changes\<close>

lemma rerender_same: "isModalOpen (commit s) = isModalOpen s \<Longrightarrow> rerender s = commit s"
  by (simp add: rerender_def Let_def)

lemma rerender_changed:
  "isModalOpen (commit s) \<noteq> isModalOpen s \<Longrightarrow> rerender s = effect (run_cleanup (commit s))"
  by (simp add: rerender_def Let_def)

lemma isModalOpen_rerender: "isModalOpen (rerender s) = isModalOpen (commit s)"
  by (simp add: rerender_def Let_def effect_fields run_cleanup_fields)

lemma document_rerender:
  "document (rerender s) = Some (render (isModalOpen (rerender s)) (errors s))"
  by (simp add: rerender_def Let_def effect_fields run_cleanup_fields commit_fields)

lemma errors_rerender: "errors (rerender s) = errors s"
  by (simp add: rerender_def Let_def effect_fields run_cleanup_fields commit_fields)

lemma formValues_rerender: "formValues (rerender s) = formValues s"
  by (simp add: rerender_def Let_def effect_fields run_cleanup_fields commit_fields)

lemma commit_refs:
  "openButtonRef (commit s) = Some open_button"
  "modalTitleRef (commit s) = (if isModalOpen (commit s) then Some modal_title else None)"
  "modalContentRef (commit s) =
     (if isModalOpen (commit s) then Some (modal_content (errors s)) else None)"
  "modalRef (commit s) = (if isModalOpen (commit s) then Some (modal (errors s)) else None)"
  by (simp_all add: commit_def Let_def find_node_open_button find_node_modal_title
      find_node_modal_content find_node_modal)

lemma run_cleanup_refs:
  "openButtonRef (run_cleanup s) = openButtonRef s"
  "modalTitleRef (run_cleanup s) = modalTitleRef s"
  "trace (run_cleanup s) =
     trace s @ (case cleanup s of None \<Rightarrow> [] | Some h \<Rightarrow> [RemoveEventListener h])"
  "nextListener (run_cleanup s) = nextListener s"
  "activeElement (run_cleanup s) = activeElement s"
  by (simp_all add: run_cleanup_def removeEventListener_def split: option.splits)

lemma effect_open:
  assumes "isModalOpen s" and "modalTitleRef s = Some modal_title"
  shows "activeElement (effect s) = Some ModalTitle"
    and "trace (effect s) = trace s @ [Focus ModalTitle, AddEventListener (nextListener s)]"
    and "listeners (effect s) = listeners s @ [nextListener s]"
    and "cleanup (effect s) = Some (nextListener s)"
  using assms by (simp_all add: effect_def Let_def focus_modal_title addEventListener_def)

lemma effect_closed:
  assumes "\<not> isModalOpen s" and "openButtonRef s = Some open_button"
  shows "activeElement (effect s) = Some OpenModalButton"
    and "trace (effect s) = trace s @ [Focus OpenModalButton]"
    and "listeners (effect s) = listeners s"
    and "cleanup (effect s) = None"
  using assms by (simp_all add: effect_def focus_open_button)

lemma rerender_transition:
  assumes "isModalOpen (commit s) \<noteq> isModalOpen s"
  shows "activeElement (rerender s)
           = Some (if isModalOpen (rerender s) then ModalTitle else OpenModalButton)"
    and "trace (rerender s) =
           trace s @ (case cleanup s of None \<Rightarrow> [] | Some h \<Rightarrow> [RemoveEventListener h])
           @ (if isModalOpen (rerender s)
              then [Focus ModalTitle, AddEventListener (nextListener s)]
              else [Focus OpenModalButton])"
proof -
  let ?c = "run_cleanup (commit s)"
  have r: "rerender s = effect ?c" using assms by (rule rerender_changed)
  have o: "isModalOpen ?c = isModalOpen (rerender s)"
    by (simp add: isModalOpen_rerender run_cleanup_fields)
  have refs: "openButtonRef ?c = Some open_button"
    "modalTitleRef ?c = (if isModalOpen (rerender s) then Some modal_title else None)"
    by (simp_all add: run_cleanup_refs commit_refs isModalOpen_rerender)
  have t: "trace ?c = trace s @ (case cleanup s of None \<Rightarrow> [] | Some h \<Rightarrow> [RemoveEventListener h])"
    "nextListener ?c = nextListener s"
    by (simp_all add: run_cleanup_refs commit_fields)
  show "activeElement (rerender s)
           = Some (if isModalOpen (rerender s) then ModalTitle else OpenModalButton)"
    using o refs by (cases "isModalOpen (rerender s)") (simp_all add: r effect_open effect_closed)
  show "trace (rerender s) =
           trace s @ (case cleanup s of None \<Rightarrow> [] | Some h \<Rightarrow> [RemoveEventListener h])
           @ (if isModalOpen (rerender s)
              then [Focus ModalTitle, AddEventListener (nextListener s)]
              else [Focus OpenModalButton])"
    using o refs t
    by (cases "isModalOpen (rerender s)") (simp_all add: r effect_open effect_closed)
qed

lemma trace_rerender_same:
  "isModalOpen (commit s) = isModalOpen s \<Longrightarrow> trace (rerender s) = trace s"
  by (simp add: rerender_same commit_fields)

lemma settled_queued: "settled s \<Longrightarrow> queued s = None"
  by (simp add: settled_def)

lemma commit_keeps_open: "queued s = None \<Longrightarrow> isModalOpen (commit s) = isModalOpen s"
  by (simp add: commit_fields)



section \<open>The shape of one step\<close>

lemma click_submit_button: "settled s \<Longrightarrow> click SubmitButton s = s"
  by (cases "isModalOpen s")
     (auto simp: click_def settled_def path_to_submit_button onClick_def
       split: option.splits)

lemma untouched_commit_settled:
  assumes "settled s" and "document s \<noteq> None"
  shows "untouched s (commit s)" and "rerender s = commit s" and "queued (commit s) = None"
proof -
  have q: "queued s = None" using assms(1) by (rule settled_queued)
  then show "rerender s = commit s" by (simp add: rerender_same commit_keeps_open)
  show "queued (commit s) = None" by (simp add: commit_fields)
  from assms obtain t where t: "document s = Some t" "t = render (isModalOpen s) (errors s)"
    "attached s t"
    by (auto simp: settled_def)
  with q show "untouched s (commit s)"
    by (simp add: untouched_def commit_def Let_def attached_def)
qed

lemma request_submit_cases:
  obtains "request_submit s = s"
  | "request_submit s = rerender (handleSubmit onSubmit s)"
  | f where "request_submit s = move_focus (Some (Control f)) s"
proof (cases "present FormGroupWrapper (document s)")
  case False
  then have "request_submit s = s" by (simp add: request_submit_def)
  then show ?thesis by (rule that(1))
next
  case True
  show ?thesis
  proof (cases "filter (\<lambda>f. type_mismatch f (getValue (formValues s) f)) registered")
    case Nil
    with True have "request_submit s = rerender (handleSubmit onSubmit s)"
      by (simp add: request_submit_def)
    then show ?thesis by (rule that(2))
  next
    case (Cons f fs)
    with True have "request_submit s = move_focus (Some (Control f)) s"
      by (simp add: request_submit_def)
    then show ?thesis by (rule that(3))
  qed
qed

lemma step_cases [consumes 2, case_names idle rendered tabbed moved unmounted]:
  assumes "settled s" and "step s ev = Inr s'"
  obtains "s' = s"
  | m where "untouched s m" and "s' = rerender m" and "document s \<noteq> None"
  | e where "ev = KeyDown e" and "key e = ''Tab''" and "untouched (rerender s) s'"
      and "document s \<noteq> None"
  | "untouched s s'" and "document s \<noteq> None" and "queued s' = queued s"
  | "s' = unmount s" and "document s \<noteq> None"
proof (cases "document s = None")
  case True
  with assms(2) have "s' = s"
    by (cases ev) (auto simp: present_def)
  then show ?thesis by (rule that(1))
next
  case False
  show ?thesis
  proof (cases ev)
    case (Click t)
    show ?thesis
    proof (cases "t = SubmitButton")
      case F: False
      with Click assms(2) \<open>document s \<noteq> None\<close> have "s' = rerender (click t s)" by simp
      then show ?thesis
        using \<open>document s \<noteq> None\<close> by (intro that(2) [of "click t s"]) simp_all
    next
      case True
      note c = untouched_commit_settled [OF assms(1) \<open>document s \<noteq> None\<close>]
      from True Click assms(2) \<open>document s \<noteq> None\<close>
      have s': "s' = request_submit (commit s)"
        by (simp add: click_submit_button [OF assms(1)] c(2))
      show ?thesis
      proof (cases "commit s" rule: request_submit_cases)
        case 1
        with s' c(2) have "s' = rerender s" by simp
        then show ?thesis
          using \<open>document s \<noteq> None\<close> by (intro that(2) [of s]) simp_all
      next
        case 2
        have "untouched s (handleSubmit onSubmit (commit s))"
          by (rule untouched_trans [OF c(1) untouched_handleSubmit])
        with 2 s' show ?thesis
          using \<open>document s \<noteq> None\<close>
          by (intro that(2) [of "handleSubmit onSubmit (commit s)"]) simp_all
      next
        case (3 f)
        have "untouched s (move_focus (Some (Control f)) (commit s))"
          by (rule untouched_trans [OF c(1) untouched_move_focus])
        moreover have "queued (move_focus (Some (Control f)) (commit s)) = queued s"
          using c(3) settled_queued [OF assms(1)]
          by (simp add: move_focus_def split: option.splits)
        ultimately show ?thesis
          using 3 s' \<open>document s \<noteq> None\<close> by (intro that(4)) simp_all
      qed
    qed
  next
    case (KeyDown e)
    define pre where "pre = (\<lambda>s.
     (case activeElement s of
        None \<Rightarrow> s
      | Some target \<Rightarrow>
          (case document s of
             None \<Rightarrow> s
           | Some t \<Rightarrow>
               if ModalOverlay \<in> set (path_to target t) then handleKeyDown e s else s)))"
    have k: "keydown e s = dispatch (listeners (rerender (pre s))) e (rerender (pre s))"
      using keydown_unfold [OF pre_def] by simp
    have u: "untouched s (pre s)"
      by (simp add: pre_def split: option.splits)
    show ?thesis
    proof (cases "key e = ''Tab''")
      case True
      then have "pre s = s"
        by (simp add: pre_def handleKeyDown_def split: option.splits)
      with k assms(2) KeyDown False have "untouched (rerender s) s'"
        by (auto dest: untouched_dispatch)
      with KeyDown True False show ?thesis by (intro that(3)) simp_all
    next
      case False
      with k assms(2) KeyDown \<open>document s \<noteq> None\<close> have "s' = rerender (pre s)"
        by (simp add: dispatch_other_key)
      with u \<open>document s \<noteq> None\<close> show ?thesis by (intro that(2) [of "pre s"])
    qed
  next
    case (Change f v)
    show ?thesis
    proof (cases "present (Control f) (document s)")
      case True
      with assms(2) Change have "s' = rerender (onChange f v s)" by simp
      then show ?thesis using False by (intro that(2) [of "onChange f v s"]) simp_all
    next
      case False
      with assms(2) Change have "s' = s" by simp
      then show ?thesis by (rule that(1))
    qed
  next
    case Submit
    show ?thesis
    proof (cases "present FormGroupWrapper (document s)")
      case True
      with assms(2) Submit have "s' = rerender (handleSubmit onSubmit s)" by simp
      then show ?thesis using False by (intro that(2) [of "handleSubmit onSubmit s"]) simp_all
    next
      case False
      with assms(2) Submit have "s' = s" by simp
      then show ?thesis by (rule that(1))
    qed
  next
    case (MoveFocus t)
    with assms(2) False have s': "s' = move_focus t s" by simp
    have "queued (move_focus t s) = queued s"
      by (simp add: move_focus_def split: option.splits)
    with s' False show ?thesis by (intro that(4)) simp_all
  next
    case Unmount
    with assms(2) False have "s' = unmount s" by simp
    then show ?thesis using False by (rule that(5))
  qed
qed

lemma settled_shown:
  assumes "settled s"
  shows "listeners s = (if shown s then [the (cleanup s)] else [])"
    and "shown s \<Longrightarrow> cleanup s \<noteq> None"
    and "\<not> shown s \<Longrightarrow> cleanup s = None"
  using assms
  by (auto simp: settled_def shown_def scoped_def tidy_def split: option.splits)

lemma rerender_commit_settled: "settled s \<Longrightarrow> rerender s = commit s"
  by (simp add: rerender_same commit_keeps_open settled_queued)

lemma shown_rerender: "shown (rerender m) = isModalOpen (commit m)"
  by (simp add: shown_def document_rerender isModalOpen_rerender)

lemma listener_calls_mount: "listener_calls (trace (mount strict)) = []"
proof -
  let ?s = "effect (commit initial)"
  have c: "openButtonRef (commit initial) = Some open_button" "\<not> isModalOpen (commit initial)"
    "trace (commit initial) = []"
    by (simp_all add: commit_refs commit_fields initial_def)
  then have e: "trace ?s = [Focus OpenModalButton]" "cleanup ?s = None"
    "\<not> isModalOpen ?s" "openButtonRef ?s = Some open_button"
    by (simp_all add: effect_closed effect_fields) (simp add: effect_def focus_open_button)
  then have "run_cleanup ?s = ?s" by (simp add: run_cleanup_def)
  with e have "trace (effect (run_cleanup ?s)) = [Focus OpenModalButton, Focus OpenModalButton]"
    by (simp add: effect_closed)
  with e show ?thesis by (simp add: mount_def Let_def)
qed

lemma listener_calls_step:
  assumes st: "settled s" and step: "step s ev = Inr s'"
  shows "listener_calls (trace s') = listener_calls (trace s)
            @ (if shown s \<and> \<not> shown s' then map RemoveEventListener (listeners s) else [])
            @ (if \<not> shown s \<and> shown s' then map AddEventListener (listeners s') else [])"
  using st step
proof (cases rule: step_cases)
  case idle
  then show ?thesis by simp
next
  case (rendered m)
  have st': "settled s'" using st step by (rule settled_step)
  have sh: "shown s = isModalOpen m" "shown s' = isModalOpen (commit m)"
  proof -
    show "shown s = isModalOpen m"
      using rendered(1,3) by (auto simp: shown_def untouched_def)
    show "shown s' = isModalOpen (commit m)"
      unfolding rendered(2) by (rule shown_rerender)
  qed
  have lc: "listener_calls (trace m) = listener_calls (trace s)" "cleanup m = cleanup s"
    using rendered(1) by (simp_all add: untouched_def)
  show ?thesis
  proof (cases "isModalOpen (commit m) = isModalOpen m")
    case True
    with rendered sh lc show ?thesis
      by (simp add: trace_rerender_same)
  next
    case False
    note tr = rerender_transition(2) [OF False]
    show ?thesis
    proof (cases "shown s")
      case True
      with sh False have "\<not> shown s'" by simp
      moreover from True st have "listeners s = [the (cleanup s)]" "cleanup s \<noteq> None"
        by (simp_all add: settled_shown)
      ultimately show ?thesis
        using True tr rendered(2) lc sh
        by (auto simp: isModalOpen_rerender)
    next
      case F: False
      with sh False have s': "shown s'" by simp
      from F st have c: "cleanup s = None" by (simp add: settled_shown)
      have "cleanup s' = Some (nextListener m)"
      proof -
        let ?c = "run_cleanup (commit m)"
        have "isModalOpen ?c" "modalTitleRef ?c = Some modal_title" "nextListener ?c = nextListener m"
          using s' sh by (simp_all add: run_cleanup_fields run_cleanup_refs commit_refs commit_fields(10))
        then have "cleanup (effect ?c) = Some (nextListener m)"
          by (simp add: effect_open)
        then show ?thesis using rendered(2) False by (simp add: rerender_changed)
      qed
      with st' s' have "listeners s' = [nextListener m]"
        by (simp add: settled_shown)
      with F s' tr rendered(2) lc sh c show ?thesis
        by (simp add: isModalOpen_rerender)
    qed
  qed
next
  case (tabbed e)
  have "rerender s = commit s" using st by (rule rerender_commit_settled)
  moreover have "shown (commit s) = shown s"
    using st tabbed(4) by (simp add: shown_def commit_fields settled_queued)
  moreover have "shown s' = shown (rerender s)"
    using tabbed(3) by (simp add: untouched_def shown_def)
  moreover have "listener_calls (trace s') = listener_calls (trace (rerender s))"
    using tabbed(3) by (simp add: untouched_def)
  ultimately show ?thesis by (simp add: commit_fields)
next
  case moved
  then show ?thesis by (simp add: untouched_def shown_def)
next
  case unmounted
  have n: "\<not> shown s'" using unmounted by (simp add: shown_def unmount_def)
  have t: "trace s' = trace s @ (case cleanup s of None \<Rightarrow> [] | Some h \<Rightarrow> [RemoveEventListener h])"
    using unmounted by (simp add: unmount_def run_cleanup_refs)
  show ?thesis
  proof (cases "shown s")
    case True
    with st have "listeners s = [the (cleanup s)]" "cleanup s \<noteq> None"
      by (simp_all add: settled_shown)
    with True n t show ?thesis by auto
  next
    case False
    with st have "cleanup s = None" by (simp add: settled_shown)
    with False n t show ?thesis by simp
  qed
qed


lemma run_state_after: "run strict evs = Inr (state_after strict evs)"
proof -
  obtain s where "run strict evs = Inr s"
    unfolding run_def using run_from_returns by blast
  then show ?thesis by (simp add: state_after_def)
qed

lemma step_state_after:
  "step (state_after strict evs) ev = Inr (state_after strict (evs @ [ev]))"
proof -
  have "run strict (evs @ [ev]) = step (state_after strict evs) ev"
    using run_state_after [of strict evs] by (simp add: run_def run_from_snoc)
  then show ?thesis
    using run_state_after [of strict "evs @ [ev]"] by simp
qed

lemma step_state_after_eq:
  "evs' = evs @ [ev] \<Longrightarrow> step (state_after strict evs) ev = Inr (state_after strict evs')"
  by (simp add: step_state_after)


lemma settled_refs:
  assumes "settled s" and "document s \<noteq> None"
  shows "modalTitleRef s = (if isModalOpen s then Some modal_title else None)"
    and "modalContentRef s = (if isModalOpen s then Some (modal_content (errors s)) else None)"
    and "modalRef s = (if isModalOpen s then Some (modal (errors s)) else None)"
    and "openButtonRef s = Some open_button"
    and "document s = Some (render (isModalOpen s) (errors s))"
  using assms
  by (auto simp: settled_def attached_def find_node_modal_title find_node_modal_content
      find_node_modal find_node_open_button)

lemma isModalOpen_unmount: "isModalOpen (unmount s) = isModalOpen s"
  by (simp add: unmount_def run_cleanup_fields)


section \<open>The form in the document\<close>


lemma find_node_form:
  "find_node FormGroupWrapper (render b errs) = (if b then Some (form errs) else None)"
  by (simp add: find_node_def descendants_render descendants_modal_content open_button_def
      render_def modal_def modal_content_def modal_title_def form_def)

lemma find_node_control:
  "find_node (Control f) (render True errs) = Some (control f (errs f))"
proof -
  have a: "ident (form_group g e) = FormGroup g" for g e
    by (simp add: form_group_def)
  have "find (\<lambda>n. ident n = Control f) (descendants (form errs)) = Some (control f (errs f))"
    unfolding descendants_form registered_def
    by (cases f)
       (simp_all add: descendants_form_group find_app find_error_message a options_def)
  then show ?thesis
    by (simp add: find_node_def descendants_render descendants_modal_content open_button_def
        render_def modal_def modal_content_def modal_title_def form_def)
qed







lemma submitted_append [simp]: "submitted (xs @ ys) = submitted xs @ submitted ys"
  by (induction xs rule: submitted.induct) simp_all

lemma isValid_iff: "isValid d \<longleftrightarrow> (\<forall>f. validate d f = None)"
proof
  assume "isValid d"
  then have "validate d f = None" for f
    by (cases f) (simp_all add: isValid_def registered_def)
  then show "\<forall>f. validate d f = None" by blast
next
  assume "\<forall>f. validate d f = None"
  then show "isValid d" by (simp add: isValid_def list_all_iff)
qed

lemma focus_more:
  "queued (optional_focus r s) = queued s"
  "errors (optional_focus r s) = errors s"
  "submitted (trace (optional_focus r s)) = submitted (trace s)"
  "formValues (optional_focus r s) = formValues s"
  by (cases r; simp add: focus_def)+

lemma focusError_more:
  "queued (focusError s) = queued s"
  "errors (focusError s) = errors s"
  "submitted (trace (focusError s)) = submitted (trace s)"
  by (simp_all add: focusError_def focus_more split: list.splits option.splits)

lemma closeModal_more:
  "queued (closeModal s) = Some False"
  "submitted (trace (closeModal s)) = submitted (trace s)"
  "errors (closeModal s) = errors s"
  "formValues (closeModal s) = formValues s"
  by (simp_all add: closeModal_def setIsModalOpen_def close_def Let_def split: option.splits)


lemma errors_after_submit:
  "errors (rerender (handleSubmit onSubmit s)) f = validate (formValues s) f"
proof (cases "isValid (formValues s)")
  case True
  then have "errors (handleSubmit onSubmit s) = (\<lambda>f. None)"
    by (simp add: handleSubmit_def Let_def onSubmit_def closeModal_more)
  with True show ?thesis
    by (simp add: errors_rerender isValid_iff)
next
  case False
  then have "errors (handleSubmit onSubmit s) = validate (formValues s)"
    by (simp add: handleSubmit_def Let_def focusError_more)
  then show ?thesis
    by (simp add: errors_rerender)
qed



section \<open>The dialog element and the open state\<close>

lemma dialog_in_document_iff_shown:
  assumes "run strict evs = Inr s"
  shows "present ModalOverlay (document s) = shown s"
proof (cases "document s")
  case None
  then show ?thesis by (simp add: present_def shown_def)
next
  case (Some t)
  with settled_run [OF assms] have "t = render (isModalOpen s) (errors s)"
    by (simp add: settled_def)
  with Some show ?thesis
    by (simp add: present_def shown_def find_node_modal)
qed

lemma dialogOpen_effect: "dialogOpen (effect s) = dialogOpen s"
  by (cases "modalTitleRef s"; cases "openButtonRef s";
      simp add: effect_def Let_def addEventListener_def focus_def)

lemma dialogOpen_run_cleanup: "dialogOpen (run_cleanup s) = dialogOpen s"
  by (simp add: run_cleanup_def removeEventListener_def split: option.splits)

lemma dialogOpen_commit: "dialogOpen (commit s) \<Longrightarrow> isModalOpen (commit s)"
  by (simp add: commit_def Let_def find_node_modal split: if_splits)

lemma dialogOpen_rerender: "dialogOpen (rerender s) \<Longrightarrow> shown (rerender s)"
proof -
  assume "dialogOpen (rerender s)"
  then have "dialogOpen (commit s)"
    by (simp add: rerender_def Let_def dialogOpen_effect dialogOpen_run_cleanup
        split: if_splits)
  then show ?thesis
    by (simp add: shown_rerender dialogOpen_commit)
qed

lemma dialogOpen_handleTabKey: "handleTabKey e s = Inr s' \<Longrightarrow> dialogOpen s' = dialogOpen s"
  using handleTabKey_shape [of e s] by (auto simp: focus_def preventDefault_def)

lemma dialogOpen_dispatch: "dispatch hs e s = Inr s' \<Longrightarrow> dialogOpen s' = dialogOpen s"
proof (induction hs arbitrary: s)
  case Nil
  then show ?case by simp
next
  case (Cons h hs)
  then show ?case
    by (auto split: sum.splits dest: dialogOpen_handleTabKey)
qed

lemma dialogOpen_request_submit:
  assumes "dialogOpen s \<longrightarrow> shown s"
  shows "dialogOpen (request_submit s) \<longrightarrow> shown (request_submit s)"
proof (cases s rule: request_submit_cases)
  case 1
  with assms show ?thesis by simp
next
  case 2
  then show ?thesis by (auto dest: dialogOpen_rerender)
next
  case (3 f)
  have "dialogOpen (move_focus (Some (Control f)) s) = dialogOpen s"
    "shown (move_focus (Some (Control f)) s) = shown s"
    by (simp_all add: move_focus_def shown_def split: option.splits)
  with 3 assms show ?thesis by simp
qed

lemma dialogOpen_step:
  assumes "dialogOpen s \<longrightarrow> shown s" and "step s ev = Inr s'"
  shows "dialogOpen s' \<longrightarrow> shown s'"
proof (cases "document s = None")
  case True
  with assms show ?thesis
    by (cases ev) (auto simp: present_def)
next
  case False
  show ?thesis
  proof (cases ev)
    case (Click t)
    have r: "dialogOpen (rerender (click t s)) \<longrightarrow> shown (rerender (click t s))"
      by (auto dest: dialogOpen_rerender)
    show ?thesis
    proof (cases "t = SubmitButton")
      case True
      with Click assms(2) False have "s' = request_submit (rerender (click t s))" by simp
      with r show ?thesis by (simp add: dialogOpen_request_submit)
    next
      case F: False
      with Click assms(2) \<open>document s \<noteq> None\<close> have "s' = rerender (click t s)" by simp
      with r show ?thesis by simp
    qed
  next
    case (KeyDown e)
    define pre where "pre = (\<lambda>s.
     (case activeElement s of
        None \<Rightarrow> s
      | Some target \<Rightarrow>
          (case document s of
             None \<Rightarrow> s
           | Some t \<Rightarrow>
               if ModalOverlay \<in> set (path_to target t) then handleKeyDown e s else s)))"
    have k: "keydown e s = dispatch (listeners (rerender (pre s))) e (rerender (pre s))"
      using keydown_unfold [OF pre_def] by simp
    with assms(2) KeyDown False
    have d: "dispatch (listeners (rerender (pre s))) e (rerender (pre s)) = Inr s'" by simp
    then have "dialogOpen s' = dialogOpen (rerender (pre s))"
      by (rule dialogOpen_dispatch)
    moreover from d have "untouched (rerender (pre s)) s'" by (rule untouched_dispatch)
    then have "shown s' = shown (rerender (pre s))"
      by (simp add: untouched_def shown_def)
    ultimately show ?thesis by (auto dest: dialogOpen_rerender)
  next
    case (Change f v)
    with assms show ?thesis by (auto dest: dialogOpen_rerender split: if_splits)
  next
    case Submit
    with assms show ?thesis by (auto dest: dialogOpen_rerender split: if_splits)
  next
    case (MoveFocus t)
    have "dialogOpen (move_focus t s) = dialogOpen s" "shown (move_focus t s) = shown s"
      by (simp_all add: move_focus_def shown_def split: option.splits)
    with MoveFocus assms False show ?thesis by auto
  next
    case Unmount
    with assms False show ?thesis by (auto simp: unmount_def)
  qed
qed

lemma dialogOpen_run_from:
  "dialogOpen s \<longrightarrow> shown s \<Longrightarrow> run_from s evs = Inr s' \<Longrightarrow> dialogOpen s' \<longrightarrow> shown s'"
proof (induction evs arbitrary: s)
  case Nil
  then show ?case by simp
next
  case (Cons ev evs)
  then obtain s1 where "step s ev = Inr s1" "run_from s1 evs = Inr s'"
    by (auto split: sum.splits)
  with Cons show ?case
    using dialogOpen_step by blast
qed

lemma dialog_attribute_only_while_shown:
  assumes "run strict evs = Inr s" and "dialogOpen s"
  shows "shown s"
proof -
  have "\<not> dialogOpen (mount strict)"
    by (simp add: mount_def Let_def dialogOpen_effect dialogOpen_run_cleanup commit_def
        initial_def)
  with assms show ?thesis
    unfolding run_def using dialogOpen_run_from by blast
qed

section \<open>Opening the modal\<close>

lemma path_to_open_button:
  "path_to OpenModalButton (render b errs) = [OpenModalButton, ModalPage]"
  by (simp add: render_def open_button_def)

lemma click_open_button:
  assumes "settled s" and "document s \<noteq> None"
  shows "step s (Click OpenModalButton) = Inr (rerender (openModal s))"
proof -
  have "click OpenModalButton s = openModal s"
    using assms
    by (auto simp: click_def settled_refs(5) path_to_open_button onClick_def)
  moreover from assms(2) have "step s (Click OpenModalButton)
      = Inr (rerender (click OpenModalButton s))" by auto
  ultimately show ?thesis by simp
qed

lemma openModal_fields:
  "queued (openModal s) = Some True"
  "formValues (openModal s) = defaultValues"
  "errors (openModal s) = (\<lambda>f. None)"
  "modalRef s = None \<Longrightarrow> trace (openModal s) = trace s"
  "modalRef s \<noteq> None \<Longrightarrow> trace (openModal s) = trace s @ [ShowModal]"
  by (auto simp: openModal_def setIsModalOpen_def reset_def showModal_def Let_def
      split: option.splits)

lemma open_resets_form:
  assumes "run strict evs = Inr s" and "document s \<noteq> None"
  shows "step s (Click OpenModalButton) = Inr (rerender (openModal s))
       \<and> isModalOpen (rerender (openModal s))
       \<and> formValues (rerender (openModal s)) = defaultValues
       \<and> errors (rerender (openModal s)) = (\<lambda>f. None)"
  using click_open_button [OF settled_run [OF assms(1)] assms(2)]
  by (simp add: isModalOpen_rerender commit_fields openModal_fields formValues_rerender
      errors_rerender)

lemma open_from_closed_never_calls_showModal:
  assumes "run strict evs = Inr s" and "document s \<noteq> None" and "\<not> isModalOpen s"
  shows "trace (rerender (openModal s))
           = trace s @ [Focus ModalTitle, AddEventListener (nextListener s)]"
proof -
  have st: "settled s" using assms(1) by (rule settled_run)
  with assms(2,3) have "modalRef s = None" "cleanup s = None"
    by (simp_all add: settled_refs(3) settled_shown(3) shown_def)
  moreover have "isModalOpen (openModal s) = isModalOpen s"
    "cleanup (openModal s) = cleanup s" "nextListener (openModal s) = nextListener s"
    using untouched_openModal [of s] by (simp_all add: untouched_def)
  moreover have c: "isModalOpen (commit (openModal s))"
    by (simp add: commit_fields openModal_fields)
  ultimately show ?thesis
    using assms(3) rerender_transition(2) [of "openModal s"]
    by (simp add: isModalOpen_rerender openModal_fields)
qed

lemma open_from_closed_leaves_attribute_unset:
  assumes "run strict evs = Inr s" and "document s \<noteq> None" and "\<not> isModalOpen s"
  shows "isModalOpen (rerender (openModal s)) \<and> \<not> dialogOpen (rerender (openModal s))"
proof -
  have "\<not> present ModalOverlay (document s)"
    using dialog_in_document_iff_shown [OF assms(1)] assms(3) by (simp add: shown_def)
  moreover have "document (openModal s) = document s"
    using untouched_openModal [of s] by (simp add: untouched_def)
  ultimately have "\<not> dialogOpen (commit (openModal s))"
    by (simp add: commit_def Let_def)
  then have "\<not> dialogOpen (rerender (openModal s))"
    by (simp add: rerender_def Let_def dialogOpen_effect dialogOpen_run_cleanup)
  moreover have "isModalOpen (rerender (openModal s))"
    by (simp add: isModalOpen_rerender commit_fields openModal_fields)
  ultimately show ?thesis by simp
qed

section \<open>The focused element stays in the document\<close>

lemma find_node_submit_button:
  "find_node SubmitButton (render True errs)
     = Some (Node SubmitButton TButton [(''type'', ''submit'')] [] [])"
proof -
  have a: "ident (form_group g e) = FormGroup g" for g e
    by (simp add: form_group_def)
  have "find (\<lambda>n. ident n = SubmitButton) (descendants (form errs))
      = Some (Node SubmitButton TButton [(''type'', ''submit'')] [] [])"
    unfolding descendants_form registered_def
    by (simp add: descendants_form_group find_app find_error_message a options_def
        form_actions_def)
  then show ?thesis
    by (simp add: find_node_def descendants_render descendants_modal_content open_button_def
        render_def modal_def modal_content_def modal_title_def form_def)
qed

lemma focus_in_document_commit: "focus_in_document (commit s)"
  by (simp add: focus_in_document_def commit_def Let_def present_def split: option.splits)

lemma focus_in_document_rerender: "focus_in_document (rerender m)"
proof (cases "isModalOpen (commit m) = isModalOpen m")
  case True
  then show ?thesis by (simp add: rerender_same focus_in_document_commit)
next
  case False
  have "present (if isModalOpen (rerender m) then ModalTitle else OpenModalButton)
      (document (rerender m))"
    by (simp add: document_rerender present_def find_node_modal_title find_node_open_button)
  then show ?thesis
    by (simp add: focus_in_document_def rerender_transition(1) [OF False])
qed

lemma focus_in_document_move_focus:
  "focus_in_document s \<Longrightarrow> focus_in_document (move_focus t s)"
  by (auto simp: focus_in_document_def move_focus_def present_def split: option.splits)

lemma focus_in_document_request_submit:
  "focus_in_document s \<Longrightarrow> focus_in_document (request_submit s)"
  by (cases s rule: request_submit_cases)
     (simp_all add: focus_in_document_rerender focus_in_document_move_focus)

lemma handleTabKey_settled:
  assumes "settled s" and "document s \<noteq> None"
  shows "handleTabKey e s = Inr s
       \<or> handleTabKey e s
           = Inr (s\<lparr>trace := trace s @ [PreventDefault, Focus SubmitButton],
                   activeElement := Some SubmitButton\<rparr>) \<and> isModalOpen s
       \<or> handleTabKey e s
           = Inr (s\<lparr>trace := trace s @ [PreventDefault, Focus ModalTitle],
                   activeElement := Some ModalTitle\<rparr>) \<and> isModalOpen s"
proof (cases "isModalOpen s \<and> key e = ''Tab''")
  case False
  with assms show ?thesis
    by (auto simp: handleTabKey_other_key handleTabKey_no_content settled_refs(2))
next
  case True
  with assms have c: "modalContentRef s = Some (modal_content (errors s))"
    by (simp add: settled_refs(2))
  let ?q = "querySelectorAll focusable_selector (modal_content (errors s))"
  let ?submit = "Node SubmitButton TButton [(''type'', ''submit'')] [] []"
  have q: "?q \<noteq> []" "hd ?q = modal_title" "last ?q = ?submit"
    by (simp_all add: query_modal_content)
  have f1: "focus ?submit (preventDefault s) =
      s\<lparr>trace := trace s @ [PreventDefault, Focus SubmitButton],
        activeElement := Some SubmitButton\<rparr>"
    by (simp add: focus_def preventDefault_def focusable_area_def)
  have f2: "focus modal_title (preventDefault s) =
      s\<lparr>trace := trace s @ [PreventDefault, Focus ModalTitle],
        activeElement := Some ModalTitle\<rparr>"
    by (simp add: focus_modal_title preventDefault_def)
  from True have k: "key e = ''Tab''" by simp
  show ?thesis
    unfolding handleTabKey_cases [OF c k] Let_def
    using True by (simp add: q f1 f2)
qed

lemma focus_in_document_handleTabKey:
  assumes "settled s" and "document s \<noteq> None" and "focus_in_document s"
    and "handleTabKey e s = Inr s'"
  shows "focus_in_document s'" and "document s' \<noteq> None"
proof -
  have d: "document s = Some (render (isModalOpen s) (errors s))"
    using assms(1,2) by (rule settled_refs(5))
  from handleTabKey_settled [OF assms(1,2), of e] assms(4)
  consider "s' = s"
    | "isModalOpen s" "s' = s\<lparr>trace := trace s @ [PreventDefault, Focus SubmitButton],
                   activeElement := Some SubmitButton\<rparr>"
    | "isModalOpen s" "s' = s\<lparr>trace := trace s @ [PreventDefault, Focus ModalTitle],
                   activeElement := Some ModalTitle\<rparr>"
    by auto
  then show "focus_in_document s'"
  proof cases
    case 1
    with assms(3) show ?thesis by simp
  next
    case 2
    with d show ?thesis
      by (simp add: focus_in_document_def present_def find_node_submit_button)
  next
    case 3
    with d show ?thesis
      by (simp add: focus_in_document_def present_def find_node_modal_title)
  qed
  from handleTabKey_settled [OF assms(1,2), of e] assms(4)
  have "document s' = document s" by auto
  with assms(2) show "document s' \<noteq> None" by simp
qed

lemma focus_in_document_dispatch:
  "settled s \<Longrightarrow> document s \<noteq> None \<Longrightarrow> focus_in_document s \<Longrightarrow> dispatch hs e s = Inr s'
     \<Longrightarrow> focus_in_document s'"
proof (induction hs arbitrary: s)
  case Nil
  then show ?case by simp
next
  case (Cons h hs)
  then obtain s1 where s1: "handleTabKey e s = Inr s1" "dispatch hs e s1 = Inr s'"
    by (auto split: sum.splits)
  from s1(1) Cons.prems(1) have "settled s1" by (simp add: settled_handleTabKey)
  moreover have "document s1 \<noteq> None"
    using Cons.prems(1,2,3) s1(1) by (rule focus_in_document_handleTabKey(2))
  moreover have "focus_in_document s1"
    using Cons.prems(1,2,3) s1(1) by (rule focus_in_document_handleTabKey(1))
  ultimately show ?case using s1(2) by (rule Cons.IH)
qed

lemma focus_in_document_step:
  assumes "settled s" and "focus_in_document s" and "step s ev = Inr s'"
  shows "focus_in_document s'"
proof (cases "document s = None")
  case True
  with assms show ?thesis
    by (cases ev) (auto simp: present_def)
next
  case False
  with assms(1) have sc: "scoped s" by (rule settled_scoped)
  show ?thesis
  proof (cases ev)
    case (Click t)
    with assms(3) False show ?thesis
      by (auto simp: focus_in_document_rerender focus_in_document_request_submit
          split: if_splits)
  next
    case (KeyDown e)
    define pre where "pre = (\<lambda>s.
     (case activeElement s of
        None \<Rightarrow> s
      | Some target \<Rightarrow>
          (case document s of
             None \<Rightarrow> s
           | Some t \<Rightarrow>
               if ModalOverlay \<in> set (path_to target t) then handleKeyDown e s else s)))"
    from keydown_unfold [OF pre_def] sc
    have k: "keydown e s = dispatch (listeners (rerender (pre s))) e (rerender (pre s))"
      and "scoped (pre s)" by simp_all
    then have "settled (rerender (pre s))" by (simp add: settled_rerender)
    moreover have "document (rerender (pre s)) \<noteq> None" by (simp add: document_rerender)
    moreover have "focus_in_document (rerender (pre s))" by (rule focus_in_document_rerender)
    moreover from k assms(3) KeyDown False
    have "dispatch (listeners (rerender (pre s))) e (rerender (pre s)) = Inr s'" by simp
    ultimately show ?thesis by (rule focus_in_document_dispatch)
  next
    case (Change f v)
    with assms show ?thesis
      by (auto simp: focus_in_document_rerender split: if_splits)
  next
    case Submit
    with assms show ?thesis
      by (auto simp: focus_in_document_rerender split: if_splits)
  next
    case (MoveFocus t)
    with assms False show ?thesis by (auto simp: focus_in_document_move_focus)
  next
    case Unmount
    with assms False show ?thesis
      by (auto simp: unmount_def focus_in_document_def)
  qed
qed

lemma focus_in_document_run_from:
  "settled s \<Longrightarrow> focus_in_document s \<Longrightarrow> run_from s evs = Inr s' \<Longrightarrow> focus_in_document s'"
proof (induction evs arbitrary: s)
  case Nil
  then show ?case by simp
next
  case (Cons ev evs)
  then obtain s1 where s1: "step s ev = Inr s1" "run_from s1 evs = Inr s'"
    by (auto split: sum.splits)
  from Cons.prems(1) s1(1) have "settled s1" by (rule settled_step)
  moreover from Cons.prems(1,2) s1(1) have "focus_in_document s1"
    by (rule focus_in_document_step)
  ultimately show ?case using s1(2) by (rule Cons.IH)
qed

lemma focus_in_document_mount: "focus_in_document (mount strict)"
proof -
  let ?s = "effect (commit initial)"
  have c: "openButtonRef (commit initial) = Some open_button" "\<not> isModalOpen (commit initial)"
    "document (commit initial) = Some (render False (\<lambda>f. None))"
    by (simp_all add: commit_refs commit_fields initial_def)
  then have e: "activeElement ?s = Some OpenModalButton" "cleanup ?s = None"
    "\<not> isModalOpen ?s" "openButtonRef ?s = Some open_button"
    "document ?s = Some (render False (\<lambda>f. None))"
    by (simp_all add: effect_closed effect_fields) (simp add: effect_def focus_open_button)
  then have r: "run_cleanup ?s = ?s" by (simp add: run_cleanup_def)
  with e have "activeElement (effect (run_cleanup ?s)) = Some OpenModalButton"
    "document (effect (run_cleanup ?s)) = Some (render False (\<lambda>f. None))"
    by (simp_all add: effect_closed effect_fields)
  with e show ?thesis
    by (simp add: mount_def Let_def focus_in_document_def present_def find_node_open_button)
qed

lemma focus_in_document_run: "run strict evs = Inr s \<Longrightarrow> focus_in_document s"
  unfolding run_def
  using settled_mount focus_in_document_mount by (rule focus_in_document_run_from)

section \<open>With the modal shown, a render without a state change changes nothing\<close>

lemma commit_shown:
  assumes "run strict evs = Inr s" and "shown s"
  shows "commit s = s"
proof -
  have st: "settled s" using assms(1) by (rule settled_run)
  from assms(2) have sh: "document s \<noteq> None" "isModalOpen s" by (simp_all add: shown_def)
  have q: "queued s = None" using st by (rule settled_queued)
  have d: "document s = Some (render True (errors s))"
    using settled_refs(5) [OF st sh(1)] sh(2) by simp
  have a: "attached s (render True (errors s))"
    using st d sh(2) by (auto simp: settled_def)
  have f: "(case activeElement s of None \<Rightarrow> None
            | Some a \<Rightarrow> if find_node a (render True (errors s)) \<noteq> None then Some a else None)
          = activeElement s"
  proof (cases "activeElement s")
    case None
    then show ?thesis by simp
  next
    case (Some x)
    with focus_in_document_run [OF assms(1)] d
    have "find_node x (render True (errors s)) \<noteq> None"
      by (simp add: focus_in_document_def present_def)
    with Some show ?thesis by simp
  qed
  show ?thesis
    using q d a f sh(2)
    by (intro page.equality)
       (simp_all add: commit_def Let_def attached_def present_def find_node_modal)
qed

lemma keydown_tab_shown:
  assumes "run strict evs = Inr s" and "shown s" and "key e = ''Tab''"
  shows "step s (KeyDown e) = handleTabKey e s"
proof -
  have st: "settled s" using assms(1) by (rule settled_run)
  from assms(2) have sh: "document s \<noteq> None" by (simp add: shown_def)
  define pre where "pre = (\<lambda>s.
     (case activeElement s of
        None \<Rightarrow> s
      | Some target \<Rightarrow>
          (case document s of
             None \<Rightarrow> s
           | Some t \<Rightarrow>
               if ModalOverlay \<in> set (path_to target t) then handleKeyDown e s else s)))"
  have k: "keydown e s = dispatch (listeners (rerender (pre s))) e (rerender (pre s))"
    using keydown_unfold [OF pre_def] by simp
  have "pre s = s"
    using assms(3) by (simp add: pre_def handleKeyDown_def split: option.splits)
  moreover have "rerender s = s"
    using untouched_commit_settled(2) [OF st sh] commit_shown [OF assms(1,2)] by simp
  moreover have "listeners s = [the (cleanup s)]"
    using st assms(2) by (simp add: settled_shown(1))
  ultimately have "keydown e s = dispatch [the (cleanup s)] e s"
    using k by simp
  also have "\<dots> = handleTabKey e s"
    using handleTabKey_returns [of e s] by auto
  finally have "keydown e s = handleTabKey e s" .
  moreover from sh have "step s (KeyDown e) = keydown e s" by auto
  ultimately show ?thesis by simp
qed

section \<open>A click on the submit button while the modal is shown\<close>

lemma click_submit_shown:
  assumes "run strict evs = Inr s" and "shown s"
  shows "step s (Click SubmitButton) = Inr (request_submit s)"
proof -
  have st: "settled s" using assms(1) by (rule settled_run)
  from assms(2) have sh: "document s \<noteq> None" by (simp add: shown_def)
  have "rerender s = s"
    using untouched_commit_settled(2) [OF st sh] commit_shown [OF assms] by simp
  with st sh show ?thesis by (auto simp: click_submit_button)
qed

lemma focusable_control_email: "focusable_area (control Email e)"
  by (cases e) (simp_all add: focusable_area_def aria_def)

lemma request_submit_blocked:
  assumes "settled s" and "shown s" and "type_mismatch Email (email (formValues s))"
  shows "request_submit s = s\<lparr>activeElement := Some (Control Email)\<rparr>"
proof -
  from assms(2) have sh: "document s \<noteq> None" "isModalOpen s" by (simp_all add: shown_def)
  have d: "document s = Some (render True (errors s))"
    using settled_refs(5) [OF assms(1) sh(1)] sh(2) by simp
  have p: "present FormGroupWrapper (document s)"
    by (simp add: d present_def find_node_form)
  have m: "move_focus (Some (Control Email)) s = s\<lparr>activeElement := Some (Control Email)\<rparr>"
    using focusable_control_email [of "errors s Email"]
    by (simp add: move_focus_def d find_node_control del: control.simps)
  obtain fs where "filter (\<lambda>f. type_mismatch f (getValue (formValues s) f)) registered
      = Email # fs"
    using assms(3) by (simp add: registered_def)
  with p m show ?thesis by (simp add: request_submit_def)
qed

lemma request_submit_passed:
  assumes "settled s" and "shown s" and "\<not> type_mismatch Email (email (formValues s))"
    and "github (formValues s) = []"
  shows "request_submit s = rerender (handleSubmit onSubmit s)"
proof -
  from assms(2) have sh: "document s \<noteq> None" "isModalOpen s" by (simp_all add: shown_def)
  have d: "document s = Some (render True (errors s))"
    using settled_refs(5) [OF assms(1) sh(1)] sh(2) by simp
  have p: "present FormGroupWrapper (document s)"
    by (simp add: d present_def find_node_form)
  have "filter (\<lambda>f. type_mismatch f (getValue (formValues s) f)) registered = []"
    using assms(3,4) by (simp add: registered_def)
  with p show ?thesis by (simp add: request_submit_def)
qed

section \<open>The dialog's open attribute after opening\<close>

text \<open>
  Claim C1, evaluated on the code. From the mounted page, one click on the trigger button:
  the run ends normally, \<open>isModalOpen\<close> is true and the dialog element is in the document,
  but its \<^verbatim>\<open>open\<close> attribute is not set: \<^verbatim>\<open>openModal\<close> reads \<^verbatim>\<open>modalRef.current\<close>
  while the dialog is not yet rendered, so \<^verbatim>\<open>showModal()\<close> is never called.
\<close>

theorem open_leaves_dialog_attribute_unset:
  "run False [Click OpenModalButton] = Inr (state_after False [Click OpenModalButton])
   \<and> isModalOpen (state_after False [Click OpenModalButton])
   \<and> present ModalOverlay (document (state_after False [Click OpenModalButton]))
   \<and> \<not> dialogOpen (state_after False [Click OpenModalButton])
   \<and> trace (state_after False [Click OpenModalButton])
       = [Focus OpenModalButton, Focus ModalTitle, AddEventListener 0]"
proof -
  let ?s = "state_after False [Click OpenModalButton]"
  have "run False [Click OpenModalButton] = Inr ?s" by (rule run_state_after)
  moreover have "isModalOpen ?s" "present ModalOverlay (document ?s)" "\<not> dialogOpen ?s"
    "trace ?s = [Focus OpenModalButton, Focus ModalTitle, AddEventListener 0]"
    by code_simp+
  ultimately show ?thesis by blast
qed

section \<open>The focus trap\<close>

text \<open>
  Claim C2. In every reachable state where the modal is shown, the content ref is set and the
  query made by the Tab handler returns, in document order, the title, the four controls,
  the cancel button and the submit button. A Tab keydown in such a state, wherever the focus
  is, is delivered to the component as the event \<open>KeyDown e\<close>, and its whole effect is:
  with Shift held and the focus on the first of them, the default action is prevented and
  the focus moves to the last; without Shift and with the focus on the last, the default
  action is prevented and the focus moves to the first; in every other case the step leaves
  the state as it was (nothing prevented, nothing focused, nothing rendered anew).
\<close>

theorem tab_keydown_wraps_focus:
  assumes "run strict evs = Inr s" and "shown s" and "key e = ''Tab''"
  shows "modalContentRef s = Some (modal_content (errors s))
     \<and> map ident (querySelectorAll focusable_selector (modal_content (errors s)))
         = [ModalTitle, Control Name, Control Email, Control Experience, Control Github,
            CancelButton, SubmitButton]
     \<and> (let fs = map ident (querySelectorAll focusable_selector (modal_content (errors s)))
        in step s (KeyDown e) =
          (if shiftKey e \<and> activeElement s = Some (hd fs)
             then Inr (s\<lparr>trace := trace s @ [PreventDefault, Focus (last fs)],
                         activeElement := Some (last fs)\<rparr>)
           else if \<not> shiftKey e \<and> activeElement s = Some (last fs)
             then Inr (s\<lparr>trace := trace s @ [PreventDefault, Focus (hd fs)],
                         activeElement := Some (hd fs)\<rparr>)
           else Inr s))"
proof -
  have st: "settled s" using assms(1) by (rule settled_run)
  with assms(2) have c: "modalContentRef s = Some (modal_content (errors s))"
    by (simp add: settled_refs(2) shown_def)
  let ?q = "querySelectorAll focusable_selector (modal_content (errors s))"
  let ?submit = "Node SubmitButton TButton [(''type'', ''submit'')] [] []"
  have q: "?q \<noteq> []" "hd ?q = modal_title" "last ?q = ?submit"
    "map ident ?q = [ModalTitle, Control Name, Control Email, Control Experience,
       Control Github, CancelButton, SubmitButton]"
    by (simp_all add: query_modal_content modal_title_def)
  have i: "ident modal_title = ModalTitle" by (simp add: modal_title_def)
  have f1: "focus ?submit (preventDefault s) =
      s\<lparr>trace := trace s @ [PreventDefault, Focus SubmitButton],
        activeElement := Some SubmitButton\<rparr>"
    by (simp add: focus_def preventDefault_def focusable_area_def)
  have f2: "focus modal_title (preventDefault s) =
      s\<lparr>trace := trace s @ [PreventDefault, Focus ModalTitle],
        activeElement := Some ModalTitle\<rparr>"
    by (simp add: focus_modal_title preventDefault_def)
  have "handleTabKey e s =
      (if shiftKey e \<and> activeElement s = Some ModalTitle
         then Inr (s\<lparr>trace := trace s @ [PreventDefault, Focus SubmitButton],
                     activeElement := Some SubmitButton\<rparr>)
       else if \<not> shiftKey e \<and> activeElement s = Some SubmitButton
         then Inr (s\<lparr>trace := trace s @ [PreventDefault, Focus ModalTitle],
                     activeElement := Some ModalTitle\<rparr>)
       else Inr s)"
    unfolding handleTabKey_cases [OF c assms(3)] Let_def
    using q(1) i by (simp add: q(2,3) f1 f2)
  then have "step s (KeyDown e) =
      (if shiftKey e \<and> activeElement s = Some ModalTitle
         then Inr (s\<lparr>trace := trace s @ [PreventDefault, Focus SubmitButton],
                     activeElement := Some SubmitButton\<rparr>)
       else if \<not> shiftKey e \<and> activeElement s = Some SubmitButton
         then Inr (s\<lparr>trace := trace s @ [PreventDefault, Focus ModalTitle],
                     activeElement := Some ModalTitle\<rparr>)
       else Inr s)"
    by (simp only: keydown_tab_shown [OF assms])
  with c q(4) show ?thesis by (simp only: Let_def list.sel last.simps) simp
qed

theorem tab_keydown_wraps_focus_witness:
  "run False [Click OpenModalButton] = Inr (state_after False [Click OpenModalButton])
   \<and> shown (state_after False [Click OpenModalButton])
   \<and> key \<lparr>key = ''Tab'', shiftKey = True\<rparr> = ''Tab''
   \<and> activeElement (state_after False [Click OpenModalButton]) = Some ModalTitle
   \<and> step (state_after False [Click OpenModalButton]) (KeyDown \<lparr>key = ''Tab'', shiftKey = True\<rparr>)
       = Inr ((state_after False [Click OpenModalButton])
               \<lparr>trace := trace (state_after False [Click OpenModalButton])
                   @ [PreventDefault, Focus SubmitButton],
                 activeElement := Some SubmitButton\<rparr>)
   \<and> run False [Click OpenModalButton, MoveFocus (Some (Control Email))]
       = Inr (state_after False [Click OpenModalButton, MoveFocus (Some (Control Email))])
   \<and> shown (state_after False [Click OpenModalButton, MoveFocus (Some (Control Email))])
   \<and> key \<lparr>key = ''Tab'', shiftKey = False\<rparr> = ''Tab''
   \<and> activeElement (state_after False [Click OpenModalButton, MoveFocus (Some (Control Email))])
       = Some (Control Email)
   \<and> step (state_after False [Click OpenModalButton, MoveFocus (Some (Control Email))])
          (KeyDown \<lparr>key = ''Tab'', shiftKey = False\<rparr>)
       = Inr (state_after False [Click OpenModalButton, MoveFocus (Some (Control Email))])"
proof -
  let ?s = "state_after False [Click OpenModalButton]"
  let ?t = "state_after False [Click OpenModalButton, MoveFocus (Some (Control Email))]"
  have r: "run False [Click OpenModalButton] = Inr ?s"
    "run False [Click OpenModalButton, MoveFocus (Some (Control Email))] = Inr ?t"
    by (rule run_state_after)+
  have ev: "shown ?s" "activeElement ?s = Some ModalTitle"
    "shown ?t" "activeElement ?t = Some (Control Email)" by code_simp+
  have k: "key \<lparr>key = ''Tab'', shiftKey = True\<rparr> = ''Tab''"
    "key \<lparr>key = ''Tab'', shiftKey = False\<rparr> = ''Tab''" by simp_all
  from tab_keydown_wraps_focus [OF r(1) ev(1) k(1)] ev(2)
  have a: "step ?s (KeyDown \<lparr>key = ''Tab'', shiftKey = True\<rparr>)
       = Inr (?s\<lparr>trace := trace ?s @ [PreventDefault, Focus SubmitButton],
                 activeElement := Some SubmitButton\<rparr>)"
    by (simp add: Let_def)
  from tab_keydown_wraps_focus [OF r(2) ev(3) k(2)] ev(4)
  have b: "step ?t (KeyDown \<lparr>key = ''Tab'', shiftKey = False\<rparr>) = Inr ?t"
    by (simp add: Let_def)
  from a b r ev k show ?thesis by simp
qed

section \<open>What opening does\<close>

text \<open>
  Claim C3, evaluated on the code. Open, type a name, cancel, open again: the second open
  ends with \<open>isModalOpen\<close> true and every field back at its default, although the name was
  still stored while the modal was closed; but the log of the whole run contains no
  \<^verbatim>\<open>showModal()\<close> call.
\<close>

theorem open_resets_fields_without_showModal:
  "run False [Click OpenModalButton, Change Name (js ''Jo''), Click CancelButton,
              Click OpenModalButton]
     = Inr (state_after False [Click OpenModalButton, Change Name (js ''Jo''),
              Click CancelButton, Click OpenModalButton])
   \<and> name (formValues (state_after False
         [Click OpenModalButton, Change Name (js ''Jo''), Click CancelButton])) = js ''Jo''
   \<and> isModalOpen (state_after False [Click OpenModalButton, Change Name (js ''Jo''),
         Click CancelButton, Click OpenModalButton])
   \<and> formValues (state_after False [Click OpenModalButton, Change Name (js ''Jo''),
         Click CancelButton, Click OpenModalButton]) = defaultValues
   \<and> ShowModal \<notin> set (trace (state_after False [Click OpenModalButton,
         Change Name (js ''Jo''), Click CancelButton, Click OpenModalButton]))"
proof -
  let ?evs = "[Click OpenModalButton, Change Name (js ''Jo''), Click CancelButton,
              Click OpenModalButton]"
  have "run False ?evs = Inr (state_after False ?evs)" by (rule run_state_after)
  moreover have
    "name (formValues (state_after False
         [Click OpenModalButton, Change Name (js ''Jo''), Click CancelButton])) = js ''Jo''"
    "isModalOpen (state_after False ?evs)"
    "formValues (state_after False ?evs) = defaultValues"
    "ShowModal \<notin> set (trace (state_after False ?evs))"
    by code_simp+
  ultimately show ?thesis by blast
qed

section \<open>Focus on open and on close\<close>

text \<open>
  Claim C4. Whenever an event changes \<open>isModalOpen\<close>, the focus is afterwards on the dialog
  title if the modal has opened, and on the trigger button if it has closed, however many
  open and close cycles came before. The title ref then points to the title element, which
  carries \<^verbatim>\<open>tabindex="0"\<close>; with it the title can take focus, without it it could not.
\<close>

theorem focus_follows_modal_state:
  assumes "run strict evs = Inr s" and "step s ev = Inr s'"
    and "isModalOpen s' \<noteq> isModalOpen s"
  shows "activeElement s' = Some (if isModalOpen s' then ModalTitle else OpenModalButton)
       \<and> (isModalOpen s' \<longrightarrow> modalTitleRef s' = Some modal_title)
       \<and> map_of (attrs modal_title) ''tabindex'' = Some ''0''
       \<and> focusable_area modal_title
       \<and> \<not> focusable_area (Node ModalTitle TH2 [(''id'', MODAL_TITLE)] [] [])"
proof -
  have st: "settled s" using assms(1) by (rule settled_run)
  have st': "settled s'" using st assms(2) by (rule settled_step)
  have title: "map_of (attrs modal_title) ''tabindex'' = Some ''0''"
    "focusable_area modal_title"
    "\<not> focusable_area (Node ModalTitle TH2 [(''id'', MODAL_TITLE)] [] [])"
    by (simp_all add: modal_title_def focusable_area_def)
  from st assms(2)
  have "activeElement s' = Some (if isModalOpen s' then ModalTitle else OpenModalButton)
      \<and> document s' \<noteq> None"
  proof (cases rule: step_cases)
    case idle
    with assms(3) show ?thesis by simp
  next
    case (rendered m)
    with assms(3) have "isModalOpen (commit m) \<noteq> isModalOpen m"
      by (simp add: isModalOpen_rerender untouched_def)
    then show ?thesis
      unfolding rendered(2) by (simp add: rerender_transition(1) document_rerender)
  next
    case (tabbed e)
    have "isModalOpen (rerender s) = isModalOpen s"
      using st by (simp add: isModalOpen_rerender commit_keeps_open settled_queued)
    with tabbed(3) assms(3) show ?thesis by (simp add: untouched_def)
  next
    case moved
    with assms(3) show ?thesis by (simp add: untouched_def)
  next
    case unmounted
    with assms(3) show ?thesis by (simp add: isModalOpen_unmount)
  qed
  moreover from this st' have "isModalOpen s' \<longrightarrow> modalTitleRef s' = Some modal_title"
    by (simp add: settled_refs(1))
  ultimately show ?thesis using title by blast
qed

theorem focus_follows_modal_state_witness:
  "run False [] = Inr (state_after False [])
   \<and> step (state_after False []) (Click OpenModalButton)
       = Inr (state_after False [Click OpenModalButton])
   \<and> activeElement (state_after False [Click OpenModalButton]) = Some ModalTitle
   \<and> run False [Click OpenModalButton, Click CancelButton, Click OpenModalButton]
       = Inr (state_after False [Click OpenModalButton, Click CancelButton, Click OpenModalButton])
   \<and> step (state_after False [Click OpenModalButton, Click CancelButton, Click OpenModalButton])
        (KeyDown \<lparr>key = ''Escape'', shiftKey = False\<rparr>)
       = Inr (state_after False [Click OpenModalButton, Click CancelButton, Click OpenModalButton,
                KeyDown \<lparr>key = ''Escape'', shiftKey = False\<rparr>])
   \<and> activeElement (state_after False [Click OpenModalButton, Click CancelButton,
         Click OpenModalButton, KeyDown \<lparr>key = ''Escape'', shiftKey = False\<rparr>])
       = Some OpenModalButton"
proof -
  let ?a = "state_after False []"
  let ?b = "state_after False [Click OpenModalButton]"
  let ?c = "state_after False [Click OpenModalButton, Click CancelButton, Click OpenModalButton]"
  let ?d = "state_after False [Click OpenModalButton, Click CancelButton, Click OpenModalButton,
                KeyDown \<lparr>key = ''Escape'', shiftKey = False\<rparr>]"
  have r1: "run False [] = Inr ?a" by (rule run_state_after)
  have s1: "step ?a (Click OpenModalButton) = Inr ?b"
    by (rule step_state_after_eq) simp
  have r2: "run False [Click OpenModalButton, Click CancelButton, Click OpenModalButton] = Inr ?c"
    by (rule run_state_after)
  have s2: "step ?c (KeyDown \<lparr>key = ''Escape'', shiftKey = False\<rparr>) = Inr ?d"
    by (rule step_state_after_eq) simp
  have ev: "\<not> isModalOpen ?a" "isModalOpen ?b" "isModalOpen ?c" "\<not> isModalOpen ?d"
    by code_simp+
  have "activeElement ?b = Some ModalTitle"
    using focus_follows_modal_state [OF r1 s1] ev by simp
  moreover have "activeElement ?d = Some OpenModalButton"
    using focus_follows_modal_state [OF r2 s2] ev by simp
  ultimately show ?thesis using r1 s1 r2 s2 by blast
qed


section \<open>The keydown listener\<close>

text \<open>
  Claim C5. The component registers no document listener when it mounts. In every state a
  run can reach, exactly one keydown listener is registered while the component is mounted
  with its modal open, and none otherwise. Across any one event, a listener is registered
  exactly when the modal goes from not shown to shown (it is the one then registered), the
  registered listener is removed exactly when the modal goes from shown to not shown (by
  closing or by unmounting), and no other registration or removal happens.
\<close>

theorem listener_lifecycle:
  assumes "run strict evs = Inr s" and "step s ev = Inr s'"
  shows "listener_calls (trace (mount strict)) = []
       \<and> length (listeners s) = (if shown s then 1 else 0)
       \<and> listener_calls (trace s') = listener_calls (trace s)
            @ (if shown s \<and> \<not> shown s' then map RemoveEventListener (listeners s) else [])
            @ (if \<not> shown s \<and> shown s' then map AddEventListener (listeners s') else [])"
proof -
  have st: "settled s" using assms(1) by (rule settled_run)
  then have "length (listeners s) = (if shown s then 1 else 0)"
    by (simp add: settled_shown(1))
  with listener_calls_mount listener_calls_step [OF st assms(2)] show ?thesis
    by blast
qed

theorem listener_lifecycle_witness:
  "run False [Click OpenModalButton] = Inr (state_after False [Click OpenModalButton])
   \<and> step (state_after False [Click OpenModalButton]) (Click CancelButton)
       = Inr (state_after False [Click OpenModalButton, Click CancelButton])
   \<and> length (listeners (state_after False [Click OpenModalButton])) = 1
   \<and> listener_calls (trace (state_after False [Click OpenModalButton, Click CancelButton]))
       = [AddEventListener 0, RemoveEventListener 0]"
proof -
  let ?s = "state_after False [Click OpenModalButton]"
  let ?s' = "state_after False [Click OpenModalButton, Click CancelButton]"
  have r: "run False [Click OpenModalButton] = Inr ?s" by (rule run_state_after)
  have st: "step ?s (Click CancelButton) = Inr ?s'"
    by (rule step_state_after_eq) simp
  have ev: "shown ?s" "\<not> shown ?s'" "listeners ?s = [0]"
    "listener_calls (trace ?s) = [AddEventListener 0]"
    by code_simp+
  from listener_lifecycle [OF r st] ev r st show ?thesis by simp
qed

section \<open>The Tab handler on a dialog without focusable elements\<close>

text \<open>
  Claim C6. If the content ref is set and the query for focusable elements under it returns
  nothing, the handler returns normally, for every key and either Shift state, and the state
  is unchanged: no error, no \<^verbatim>\<open>preventDefault\<close>, no focus change.
\<close>

theorem handleTabKey_no_focusable:
  assumes "modalContentRef s = Some c" and "querySelectorAll focusable_selector c = []"
  shows "handleTabKey e s = Inr s"
  using assms by (simp add: handleTabKey_def at_index_def)

theorem handleTabKey_no_focusable_witness:
  "modalContentRef (initial\<lparr>modalContentRef :=
       Some (Node ModalContent TDiv [] [] [Node ModalDescription TP [] [] []])\<rparr>)
     = Some (Node ModalContent TDiv [] [] [Node ModalDescription TP [] [] []])
   \<and> querySelectorAll focusable_selector
       (Node ModalContent TDiv [] [] [Node ModalDescription TP [] [] []]) = []
   \<and> handleTabKey \<lparr>key = ''Tab'', shiftKey = True\<rparr>
       (initial\<lparr>modalContentRef :=
          Some (Node ModalContent TDiv [] [] [Node ModalDescription TP [] [] []])\<rparr>)
     = Inr (initial\<lparr>modalContentRef :=
          Some (Node ModalContent TDiv [] [] [Node ModalDescription TP [] [] []])\<rparr>)"
proof -
  let ?c = "Node ModalContent TDiv [] [] [Node ModalDescription TP [] [] []]"
  have a: "modalContentRef (initial\<lparr>modalContentRef := Some ?c\<rparr>) = Some ?c" by simp
  have b: "querySelectorAll focusable_selector ?c = []"
    by (simp add: querySelectorAll_def matches_any_def focusable_selector_def)
  from a b handleTabKey_no_focusable [OF a b] show ?thesis by blast
qed

section \<open>Submitting the form\<close>





section \<open>Validation outcomes on submit\<close>

text \<open>
  Claim C8, as it holds. A click on the submit button in a reachable state where the modal
  is shown: while the email input holds a non-empty value that is not a valid e-mail address
  for the browser's own check of \<^verbatim>\<open>type="email"\<close> (such as \<^verbatim>\<open>not-an-email\<close>), the browser
  dispatches no submit event: the focus goes to the email input and nothing else changes, so
  no error is produced. Otherwise, with the github input empty, the submit event is
  dispatched and the rules are applied: a name of exactly one UTF-16 code unit gets the
  minimum-length error, a name of two or more code units gets no error; a non-empty email
  that does not match the \<^verbatim>\<open>local@domain.tld\<close> pattern (such as \<^verbatim>\<open>a@b\<close>) gets the format
  error, an email that matches gets none.
\<close>

theorem name_email_errors_on_submit:
  assumes "run strict evs = Inr s" and "shown s"
  shows "(type_mismatch Email (email (formValues s))
          \<longrightarrow> step s (Click SubmitButton) = Inr (s\<lparr>activeElement := Some (Control Email)\<rparr>))
     \<and> (\<not> type_mismatch Email (email (formValues s)) \<and> github (formValues s) = []
          \<longrightarrow> step s (Click SubmitButton) = Inr (rerender (handleSubmit onSubmit s))
            \<and> (length (name (formValues s)) = 1
                 \<longrightarrow> errors (rerender (handleSubmit onSubmit s)) Name
                      = Some \<lparr>kind = ''minLength'', message = msg_name_minLength\<rparr>)
            \<and> (2 \<le> length (name (formValues s))
                 \<longrightarrow> errors (rerender (handleSubmit onSubmit s)) Name = None)
            \<and> (email (formValues s) \<noteq> [] \<and> \<not> matches email_pattern (email (formValues s))
                 \<longrightarrow> errors (rerender (handleSubmit onSubmit s)) Email
                      = Some \<lparr>kind = ''pattern'', message = msg_email_pattern\<rparr>)
            \<and> (matches email_pattern (email (formValues s))
                 \<longrightarrow> errors (rerender (handleSubmit onSubmit s)) Email = None))"
proof -
  have st: "settled s" using assms(1) by (rule settled_run)
  have c: "step s (Click SubmitButton) = Inr (request_submit s)"
    using assms by (rule click_submit_shown)
  let ?d = "formValues s"
  let ?s' = "rerender (handleSubmit onSubmit s)"
  have blocked: "step s (Click SubmitButton) = Inr (s\<lparr>activeElement := Some (Control Email)\<rparr>)"
    if "type_mismatch Email (email ?d)"
    using request_submit_blocked [OF st assms(2) that] c by simp
  have passed: "step s (Click SubmitButton) = Inr ?s'"
    if "\<not> type_mismatch Email (email ?d)" "github ?d = []"
    using request_submit_passed [OF st assms(2) that] c by simp
  have n1: "errors ?s' Name = Some \<lparr>kind = ''minLength'', message = msg_name_minLength\<rparr>"
    if "length (name ?d) = 1"
  proof -
    from that have "name ?d \<noteq> []" "length (name ?d) < 2" by auto
    then show ?thesis by (simp add: errors_after_submit validate_name)
  qed
  have n2: "errors ?s' Name = None" if "2 \<le> length (name ?d)"
  proof -
    from that have "name ?d \<noteq> []" "\<not> length (name ?d) < 2" by auto
    then show ?thesis by (simp add: errors_after_submit validate_name)
  qed
  have e1: "errors ?s' Email = Some \<lparr>kind = ''pattern'', message = msg_email_pattern\<rparr>"
    if "email ?d \<noteq> []" "\<not> matches email_pattern (email ?d)"
    using that by (simp add: errors_after_submit validate_email)
  have e2: "errors ?s' Email = None" if "matches email_pattern (email ?d)"
  proof -
    from that have "email ?d \<noteq> []"
      by (auto simp: email_pattern_def Plus1_def chr_def)
    with that show ?thesis by (simp add: errors_after_submit validate_email)
  qed
  from blocked passed n1 n2 e1 e2 show ?thesis by blast
qed

theorem name_email_errors_on_submit_witness:
  "run False [Click OpenModalButton, Change Name (js ''A''), Change Email (js ''a@b'')]
     = Inr (state_after False
              [Click OpenModalButton, Change Name (js ''A''), Change Email (js ''a@b'')])
   \<and> shown (state_after False
              [Click OpenModalButton, Change Name (js ''A''), Change Email (js ''a@b'')])
   \<and> state_after False
       [Click OpenModalButton, Change Name (js ''A''), Change Email (js ''a@b''),
        Click SubmitButton]
     = rerender (handleSubmit onSubmit
         (state_after False
            [Click OpenModalButton, Change Name (js ''A''), Change Email (js ''a@b'')]))
   \<and> errors (state_after False
         [Click OpenModalButton, Change Name (js ''A''), Change Email (js ''a@b''),
          Click SubmitButton]) Name
     = Some \<lparr>kind = ''minLength'', message = msg_name_minLength\<rparr>
   \<and> errors (state_after False
         [Click OpenModalButton, Change Name (js ''A''), Change Email (js ''a@b''),
          Click SubmitButton]) Email
     = Some \<lparr>kind = ''pattern'', message = msg_email_pattern\<rparr>
   \<and> run False [Click OpenModalButton, Change Name (js ''Ana''), Change Email (js ''a@b.co'')]
     = Inr (state_after False
              [Click OpenModalButton, Change Name (js ''Ana''), Change Email (js ''a@b.co'')])
   \<and> shown (state_after False
              [Click OpenModalButton, Change Name (js ''Ana''), Change Email (js ''a@b.co'')])
   \<and> errors (state_after False
         [Click OpenModalButton, Change Name (js ''Ana''), Change Email (js ''a@b.co''),
          Click SubmitButton]) Name = None
   \<and> errors (state_after False
         [Click OpenModalButton, Change Name (js ''Ana''), Change Email (js ''a@b.co''),
          Click SubmitButton]) Email = None
   \<and> run False [Click OpenModalButton, Change Email (js ''not-an-email'')]
     = Inr (state_after False [Click OpenModalButton, Change Email (js ''not-an-email'')])
   \<and> shown (state_after False [Click OpenModalButton, Change Email (js ''not-an-email'')])
   \<and> type_mismatch Email (js ''not-an-email'')
   \<and> state_after False
       [Click OpenModalButton, Change Email (js ''not-an-email''), Click SubmitButton]
     = (state_after False [Click OpenModalButton, Change Email (js ''not-an-email'')])
         \<lparr>activeElement := Some (Control Email)\<rparr>"
proof -
  let ?a = "[Click OpenModalButton, Change Name (js ''A''), Change Email (js ''a@b'')]"
  let ?b = "[Click OpenModalButton, Change Name (js ''Ana''), Change Email (js ''a@b.co'')]"
  let ?c = "[Click OpenModalButton, Change Email (js ''not-an-email'')]"
  have r: "run False ?a = Inr (state_after False ?a)"
    "run False ?b = Inr (state_after False ?b)"
    "run False ?c = Inr (state_after False ?c)"
    by (rule run_state_after)+
  have sh: "shown (state_after False ?a)" "shown (state_after False ?b)"
    "shown (state_after False ?c)"
    by code_simp+
  have ha: "\<not> type_mismatch Email (email (formValues (state_after False ?a)))"
    "github (formValues (state_after False ?a)) = []"
    "length (name (formValues (state_after False ?a))) = 1"
    "email (formValues (state_after False ?a)) \<noteq> []"
    "\<not> matches email_pattern (email (formValues (state_after False ?a)))"
    by code_simp+
  have hb: "\<not> type_mismatch Email (email (formValues (state_after False ?b)))"
    "github (formValues (state_after False ?b)) = []"
    "2 \<le> length (name (formValues (state_after False ?b)))"
    "matches email_pattern (email (formValues (state_after False ?b)))"
    by code_simp+
  have hc: "type_mismatch Email (email (formValues (state_after False ?c)))"
    "type_mismatch Email (js ''not-an-email'')"
    by code_simp+
  have st: "step (state_after False ?a) (Click SubmitButton)
      = Inr (state_after False (?a @ [Click SubmitButton]))"
    "step (state_after False ?b) (Click SubmitButton)
      = Inr (state_after False (?b @ [Click SubmitButton]))"
    "step (state_after False ?c) (Click SubmitButton)
      = Inr (state_after False (?c @ [Click SubmitButton]))"
    by (rule step_state_after)+
  from name_email_errors_on_submit [OF r(1) sh(1)] ha
  have a: "step (state_after False ?a) (Click SubmitButton)
      = Inr (rerender (handleSubmit onSubmit (state_after False ?a)))"
    "errors (rerender (handleSubmit onSubmit (state_after False ?a))) Name
      = Some \<lparr>kind = ''minLength'', message = msg_name_minLength\<rparr>"
    "errors (rerender (handleSubmit onSubmit (state_after False ?a))) Email
      = Some \<lparr>kind = ''pattern'', message = msg_email_pattern\<rparr>"
    by blast+
  from name_email_errors_on_submit [OF r(2) sh(2)] hb
  have b: "step (state_after False ?b) (Click SubmitButton)
      = Inr (rerender (handleSubmit onSubmit (state_after False ?b)))"
    "errors (rerender (handleSubmit onSubmit (state_after False ?b))) Name = None"
    "errors (rerender (handleSubmit onSubmit (state_after False ?b))) Email = None"
    by blast+
  from name_email_errors_on_submit [OF r(3) sh(3)] hc(1)
  have c: "step (state_after False ?c) (Click SubmitButton)
      = Inr ((state_after False ?c)\<lparr>activeElement := Some (Control Email)\<rparr>)"
    by blast
  have sa: "state_after False (?a @ [Click SubmitButton])
      = rerender (handleSubmit onSubmit (state_after False ?a))"
    using st(1) a(1) by (simp only: sum.inject)
  have sb: "state_after False (?b @ [Click SubmitButton])
      = rerender (handleSubmit onSubmit (state_after False ?b))"
    using st(2) b(1) by (simp only: sum.inject)
  have sc: "state_after False (?c @ [Click SubmitButton])
      = (state_after False ?c)\<lparr>activeElement := Some (Control Email)\<rparr>"
    using st(3) c by (simp only: sum.inject)
  have ea: "errors (state_after False (?a @ [Click SubmitButton])) Name
      = Some \<lparr>kind = ''minLength'', message = msg_name_minLength\<rparr>"
    "errors (state_after False (?a @ [Click SubmitButton])) Email
      = Some \<lparr>kind = ''pattern'', message = msg_email_pattern\<rparr>"
    using a(2,3) by (simp_all only: sa)
  have eb: "errors (state_after False (?b @ [Click SubmitButton])) Name = None"
    "errors (state_after False (?b @ [Click SubmitButton])) Email = None"
    using b(2,3) by (simp_all only: sb)
  from r sh hc(2) sa sc ea eb show ?thesis
    by (simp only: append.simps)
qed

text \<open>
  Claim C8 as the specification words it fails in two places. With the name \<^verbatim>\<open>Ana\<close>, an
  experience chosen and the email \<^verbatim>\<open>not-an-email\<close>, which does not match the pattern, a
  click on the submit button produces no format error: the form is not submitted, the modal
  stays open and the focus is on the email input. And a name of one character can have two
  code units: with the name U+1F600, a valid email and an experience chosen, the click
  submits the form with no minimum-length error.
\<close>

theorem name_email_on_submit_counterexample:
  "\<not> matches email_pattern (js ''not-an-email'')
   \<and> errors (state_after False
         [Click OpenModalButton, Change Name (js ''Ana''), Change Email (js ''not-an-email''),
          Change Experience (js ''0-3''), Click SubmitButton]) Email = None
   \<and> \<not> isSubmitted (state_after False
         [Click OpenModalButton, Change Name (js ''Ana''), Change Email (js ''not-an-email''),
          Change Experience (js ''0-3''), Click SubmitButton])
   \<and> isModalOpen (state_after False
         [Click OpenModalButton, Change Name (js ''Ana''), Change Email (js ''not-an-email''),
          Change Experience (js ''0-3''), Click SubmitButton])
   \<and> activeElement (state_after False
         [Click OpenModalButton, Change Name (js ''Ana''), Change Email (js ''not-an-email''),
          Change Experience (js ''0-3''), Click SubmitButton]) = Some (Control Email)
   \<and> submitted (trace (state_after False
         [Click OpenModalButton, Change Name (js ''Ana''), Change Email (js ''not-an-email''),
          Change Experience (js ''0-3''), Click SubmitButton])) = []
   \<and> code_points [0xD83D, 0xDE00] = 1
   \<and> errors (state_after False
         [Click OpenModalButton, Change Name [0xD83D, 0xDE00], Change Email (js ''a@b.co''),
          Change Experience (js ''0-3''), Click SubmitButton]) Name = None
   \<and> isSubmitted (state_after False
         [Click OpenModalButton, Change Name [0xD83D, 0xDE00], Change Email (js ''a@b.co''),
          Change Experience (js ''0-3''), Click SubmitButton])
   \<and> submitted (trace (state_after False
         [Click OpenModalButton, Change Name [0xD83D, 0xDE00], Change Email (js ''a@b.co''),
          Change Experience (js ''0-3''), Click SubmitButton]))
       = [\<lparr>name = [0xD83D, 0xDE00], email = js ''a@b.co'', experience = js ''0-3'',
           github = []\<rparr>]"
  by (intro conjI; code_simp)

section \<open>Experience and GitHub link\<close>



section \<open>Focus at mount\<close>

text \<open>
  Claim C10. With no event yet handled, the state right after mount has the modal closed,
  the effect has already called \<^verbatim>\<open>focus()\<close> on the trigger button (once, or twice under
  \<^verbatim>\<open>StrictMode\<close>) and the trigger button has the document focus.
\<close>

theorem mount_focuses_trigger:
  "run strict [] = Inr (mount strict)
   \<and> \<not> isModalOpen (mount strict)
   \<and> activeElement (mount strict) = Some OpenModalButton
   \<and> trace (mount strict) =
       (if strict then [Focus OpenModalButton, Focus OpenModalButton]
        else [Focus OpenModalButton])"
proof -
  let ?s = "effect (commit initial)"
  have c: "openButtonRef (commit initial) = Some open_button" "\<not> isModalOpen (commit initial)"
    "trace (commit initial) = []" "activeElement (commit initial) = None"
    by (simp_all add: commit_def Let_def initial_def find_node_open_button)
  have e: "activeElement ?s = Some OpenModalButton" "trace ?s = [Focus OpenModalButton]"
    "\<not> isModalOpen ?s" "cleanup ?s = None" "openButtonRef ?s = Some open_button"
    using c by (simp_all add: effect_def focus_open_button)
  then have r: "run_cleanup ?s = ?s" by (simp add: run_cleanup_def)
  have "activeElement (effect ?s) = Some OpenModalButton"
    "trace (effect ?s) = [Focus OpenModalButton, Focus OpenModalButton]"
    "\<not> isModalOpen (effect ?s)"
    using e by (simp_all add: effect_def [of ?s] focus_open_button)
  with e r show ?thesis
    by (simp add: run_def mount_def Let_def)
qed

end
